theory Spec2Isabelle
  imports Complex_Main "HOL-Library.Char_ord" "HOL-Library.List_Lexorder" "HOL-Library.Multiset"
begin

section \<open>Data model: a pandas DataFrame as a list of typed columns\<close>

text \<open>
  A float64 cell: a finite value, an infinity, or \<open>NaN\<close>, which is pandas' missing-value
  marker of a float column. Signed zeros are not told apart.
\<close>

datatype fl = NaN | Fin real | PInf | NInf

text \<open>
  The storage of a column, tagged by its dtype: \<open>object\<close> (strings, \<open>None\<close> the missing
  marker), \<open>int64\<close> (which cannot hold a missing value), \<open>float64\<close>, and \<open>bool\<close>, the
  dtype of the indicator columns that \<open>pd.get_dummies\<close> produces (pandas 2; before, uint8
  with the same values 0 and 1) and of a True/False column of a loaded file. A table is
  the list of its columns; the readers of \<open>load_data\<close> give every column its own name
  and all columns the same number of rows.
\<close>

datatype coldata =
    ObjData "string option list"
  | IntData "int list"
  | FloatData "fl list"
  | BoolData "bool list"

record column =
  name :: string
  vals :: coldata

type_synonym table = "column list"

datatype py_error = IndexError | ValueError | KeyError | AttributeError

fun nrows :: "coldata \<Rightarrow> nat" where
  "nrows (ObjData xs) = length xs"
| "nrows (IntData xs) = length xs"
| "nrows (FloatData xs) = length xs"
| "nrows (BoolData xs) = length xs"

text \<open>A cell of any column, as a reader of the table or the labels of a plot see it.\<close>

datatype cell = S string | I int | F fl | B bool

text \<open>The cells of a column, \<open>None\<close> where the value is missing.\<close>

fun cells :: "coldata \<Rightarrow> cell option list" where
  "cells (ObjData xs) = map (map_option S) xs"
| "cells (IntData xs) = map (\<lambda>i. Some (I i)) xs"
| "cells (FloatData xs) = map (\<lambda>x. if x = NaN then None else Some (F x)) xs"
| "cells (BoolData xs) = map (\<lambda>b. Some (B b)) xs"



text \<open>\<open>dtype == "object"\<close>, the test of \<open>select_dtypes(include="object")\<close> and of the plots.\<close>

fun is_object :: "coldata \<Rightarrow> bool" where
  "is_object (ObjData xs) = True"
| "is_object d = False"

text \<open>\<open>select_dtypes(include=["int", "float"])\<close>: int64 and float64, not bool.\<close>

fun is_numerical :: "coldata \<Rightarrow> bool" where
  "is_numerical (IntData xs) = True"
| "is_numerical (FloatData xs) = True"
| "is_numerical d = False"

text \<open>
  Lines 71 and 72 take the two lists of labels from the table as it is passed in; they
  are not taken again after the fills. As the labels are unique, the list
  \<open>categorical_columns\<close> is kept as one flag per column.
\<close>

definition categorical_columns :: "table \<Rightarrow> bool list" where
  "categorical_columns data = map (\<lambda>c. is_object (vals c)) data"

definition numerical_columns :: "table \<Rightarrow> string list" where
  "numerical_columns data = map name (filter (\<lambda>c. is_numerical (vals c)) data)"

section \<open>Float arithmetic\<close>

text \<open>
  The arithmetic of the machine is a parameter of the model: \<open>rnd\<close> gives the float64
  result of an operation from its exact result (the nearest float64 value, an infinity
  on overflow), and \<open>total\<close> adds up an array of floats in the order that numpy takes.
  The rules for NaN, the infinities and division by zero involve no rounding and are
  written out. Every statement below holds for all such parameters, unless it names the
  arithmetic \<open>exact\<close>.
\<close>

record float_ops =
  rnd :: "real \<Rightarrow> fl"
  total :: "fl list \<Rightarrow> fl"

fun fl_neg :: "fl \<Rightarrow> fl" where
  "fl_neg NaN = NaN"
| "fl_neg (Fin x) = Fin (- x)"
| "fl_neg PInf = NInf"
| "fl_neg NInf = PInf"

fun fl_add :: "(real \<Rightarrow> fl) \<Rightarrow> fl \<Rightarrow> fl \<Rightarrow> fl" where
  "fl_add r NaN y = NaN"
| "fl_add r x NaN = NaN"
| "fl_add r (Fin x) (Fin y) = r (x + y)"
| "fl_add r (Fin x) y = y"
| "fl_add r x (Fin y) = x"
| "fl_add r PInf PInf = PInf"
| "fl_add r NInf NInf = NInf"
| "fl_add r PInf NInf = NaN"
| "fl_add r NInf PInf = NaN"

definition fl_sub :: "(real \<Rightarrow> fl) \<Rightarrow> fl \<Rightarrow> fl \<Rightarrow> fl" where
  "fl_sub r x y = fl_add r x (fl_neg y)"

fun fl_sq :: "(real \<Rightarrow> fl) \<Rightarrow> fl \<Rightarrow> fl" where
  "fl_sq r NaN = NaN"
| "fl_sq r (Fin x) = r (x * x)"
| "fl_sq r PInf = PInf"
| "fl_sq r NInf = PInf"

fun fl_div :: "(real \<Rightarrow> fl) \<Rightarrow> fl \<Rightarrow> fl \<Rightarrow> fl" where
  "fl_div r NaN y = NaN"
| "fl_div r x NaN = NaN"
| "fl_div r (Fin x) (Fin y) =
     (if y = 0 then (if x = 0 then NaN else if 0 < x then PInf else NInf) else r (x / y))"
| "fl_div r (Fin x) y = Fin 0"
| "fl_div r PInf (Fin y) = (if 0 \<le> y then PInf else NInf)"
| "fl_div r NInf (Fin y) = (if 0 \<le> y then NInf else PInf)"
| "fl_div r x y = NaN"

fun fl_sqrt :: "(real \<Rightarrow> fl) \<Rightarrow> fl \<Rightarrow> fl" where
  "fl_sqrt r NaN = NaN"
| "fl_sqrt r (Fin x) = (if x < 0 then NaN else r (sqrt x))"
| "fl_sqrt r PInf = PInf"
| "fl_sqrt r NInf = NaN"

text \<open>
  Arithmetic without rounding, added up from left to right. It gives what float64 gives
  wherever every intermediate result is a float64 value, as in the example tables below.
\<close>

definition exact :: float_ops where
  "exact = \<lparr>rnd = Fin, total = foldl (fl_add Fin) (Fin 0)\<rparr>"

text \<open>The array that the sums are taken of: \<open>0\<close> in the place of a missing value.\<close>

definition zero_filled :: "fl list \<Rightarrow> fl list" where
  "zero_filled xs = map (\<lambda>x. if x = NaN then Fin 0 else x) xs"

definition count_notna :: "fl list \<Rightarrow> nat" where
  "count_notna xs = length (filter (\<lambda>x. x \<noteq> NaN) xs)"

text \<open>\<open>Series.mean()\<close> with \<open>skipna=True\<close>: the sum over the count of the non-missing
  values, NaN when there is none.\<close>

definition mean :: "float_ops \<Rightarrow> fl list \<Rightarrow> fl" where
  "mean fp xs =
     (if count_notna xs = 0 then NaN
      else fl_div (rnd fp) (total fp (zero_filled xs)) (Fin (real (count_notna xs))))"

text \<open>\<open>Series.std()\<close> with \<open>skipna=True\<close> and \<open>ddof=1\<close>: the square root of the sum of the
  squared deviations from the mean over \<open>count - 1\<close>; NaN when \<open>count \<le> 1\<close>.\<close>

definition std :: "float_ops \<Rightarrow> fl list \<Rightarrow> fl" where
  "std fp xs =
     (if count_notna xs \<le> 1 then NaN
      else
        (let avg = fl_div (rnd fp) (total fp (zero_filled xs)) (Fin (real (count_notna xs)));
             sqr = map (\<lambda>x. if x = NaN then Fin 0 else fl_sq (rnd fp) (fl_sub (rnd fp) avg x)) xs
         in fl_sqrt (rnd fp) (fl_div (rnd fp) (total fp sqr) (Fin (real (count_notna xs - 1))))))"

section \<open>Imputation (lines 74-82)\<close>

text \<open>\<open>Series.fillna(v)\<close>: a missing cell becomes \<open>v\<close>; filling with NaN fills nothing.\<close>

definition fillna :: "fl list \<Rightarrow> fl \<Rightarrow> fl list" where
  "fillna xs v = map (\<lambda>x. if x = NaN then v else x) xs"

text \<open>
  Lines 75-77 on one column:
  \<open>data[numerical_columns] = data[numerical_columns].fillna(data[numerical_columns].mean())\<close>.
  The column names of a loaded table are unique, so the selection, the fill (which pairs
  each column with the mean stored under its name) and the assignment act column by
  column. An int64 column has nothing to fill.
\<close>

definition impute_numerical :: "float_ops \<Rightarrow> column \<Rightarrow> column" where
  "impute_numerical fp c =
     (case vals c of
        FloatData xs \<Rightarrow> c\<lparr>vals := FloatData (fillna xs (mean fp xs))\<rparr>
      | _ \<Rightarrow> c)"

text \<open>The non-missing values of an object column, in column order.\<close>

definition present :: "string option list \<Rightarrow> string list" where
  "present vs = map the (filter (\<lambda>v. v \<noteq> None) vs)"

text \<open>\<open>Series.mode()\<close> with \<open>dropna=True\<close>: the values whose count is the largest count,
  sorted ascending.\<close>

definition mode :: "string option list \<Rightarrow> string list" where
  "mode vs =
     (let xs = present vs;
          top = fold max (map (count_list xs) xs) 0
      in sort (filter (\<lambda>v. count_list xs v = top) (remdups xs)))"

definition obj_cells :: "column \<Rightarrow> string option list" where
  "obj_cells c = (case vals c of ObjData vs \<Rightarrow> vs | _ \<Rightarrow> [])"

text \<open>
  \<open>data[categorical_columns].mode()\<close> is a frame with one column of modes per object
  column, padded with NaN to the longest; it has no row when there is no object column
  or none of them has a non-missing value, and then \<open>.iloc[0]\<close> raises IndexError.
\<close>

definition mode_empty :: "table \<Rightarrow> bool" where
  "mode_empty data =
     list_all (\<lambda>c. mode (obj_cells c) = []) (filter (\<lambda>c. is_object (vals c)) data)"

text \<open>
  Lines 80-82 on one column: fill with the first row of the modes. For an object column
  without any value that row holds NaN: nothing is filled, and the column that
  \<open>fillna\<close> gives back, and that is assigned into the table, is a float64 column of NaN.
\<close>

definition impute_categorical :: "column \<Rightarrow> column" where
  "impute_categorical c =
     (case vals c of
        ObjData vs \<Rightarrow>
          (case mode vs of
             [] \<Rightarrow> c\<lparr>vals := FloatData (map (\<lambda>v. NaN) vs)\<rparr>
           | m # ms \<Rightarrow> c\<lparr>vals := ObjData (map (\<lambda>v. case v of None \<Rightarrow> Some m | Some x \<Rightarrow> Some x) vs)\<rparr>)
      | _ \<Rightarrow> c)"

section \<open>Encoding (line 85)\<close>

text \<open>
  The indicator columns of one encoded column: one bool column per distinct non-missing
  value in sorted order, named \<open>column_value\<close>. The columns that line 85 encodes are the
  object columns after the fill: object columns of strings, or float64 columns of NaN,
  which have no value and get no indicator.
\<close>

definition levels :: "string option list \<Rightarrow> string list" where
  "levels vs = sort (remdups (present vs))"

definition get_dummies_1d :: "column \<Rightarrow> table" where
  "get_dummies_1d c =
     map (\<lambda>l. \<lparr>name = name c @ ''_'' @ l, vals = BoolData (map (\<lambda>v. v = Some l) (obj_cells c))\<rparr>)
         (levels (obj_cells c))"

text \<open>
  \<open>pd.get_dummies(data, columns=categorical_columns)\<close>: the columns that are not listed
  come first, then the indicator columns of every listed column, in order.
\<close>

definition get_dummies :: "table \<Rightarrow> bool list \<Rightarrow> table" where
  "get_dummies data columns =
     map fst (filter (\<lambda>(c, listed). \<not> listed) (zip data columns))
     @ concat (map (\<lambda>(c, listed). get_dummies_1d c)
                   (filter (\<lambda>(c, listed). listed) (zip data columns)))"

section \<open>Scaling (lines 88-91)\<close>

text \<open>The cells of a column as floats; the encoded table has no object column.\<close>

fun to_float :: "float_ops \<Rightarrow> coldata \<Rightarrow> fl list" where
  "to_float fp (FloatData xs) = xs"
| "to_float fp (IntData xs) = map (\<lambda>i. rnd fp (real_of_int i)) xs"
| "to_float fp (BoolData xs) = map (\<lambda>b. Fin (if b then 1 else 0)) xs"
| "to_float fp (ObjData xs) = map (\<lambda>v. NaN) xs"

text \<open>\<open>(col - col.mean()) / col.std()\<close> for one column of the selection.\<close>

definition scale_col :: "float_ops \<Rightarrow> column \<Rightarrow> column" where
  "scale_col fp c =
     (let xs = to_float fp (vals c); m = mean fp xs; s = std fp xs
      in c\<lparr>vals := FloatData (map (\<lambda>x. fl_div (rnd fp) (fl_sub (rnd fp) x m) s) xs)\<rparr>)"

text \<open>
  \<open>df[keys]\<close> with a list of labels: for every key in turn, all the columns with that
  label. The keys of line 89 are the names of the int64 and float64 columns, which the
  encoding keeps, so the KeyError of a label that \<open>df\<close> does not have cannot occur.
\<close>

definition getitem_cols :: "table \<Rightarrow> string list \<Rightarrow> table" where
  "getitem_cols df keys = concat (map (\<lambda>k. filter (\<lambda>c. name c = k) df) keys)"

text \<open>\<open>df[k]\<close> with one label: a Series when one column has the label, else the frame of
  the columns that have it.\<close>

datatype item = Series column | Frame table

definition getitem :: "table \<Rightarrow> string \<Rightarrow> item" where
  "getitem df k = (case filter (\<lambda>c. name c = k) df of [c] \<Rightarrow> Series c | cs \<Rightarrow> Frame cs)"

text \<open>Writes the cells of \<open>vs\<close>, in order, into the columns of the table labelled \<open>k\<close>.\<close>

fun set_cols :: "string \<Rightarrow> table \<Rightarrow> table \<Rightarrow> table" where
  "set_cols k [] vs = []"
| "set_cols k (c # cs) [] = c # cs"
| "set_cols k (c # cs) (v # vs) =
     (if name c = k then c\<lparr>vals := vals v\<rparr> # set_cols k cs vs
      else c # set_cols k cs (v # vs))"

text \<open>
  \<open>df[k] = item\<close> for a label \<open>k\<close> that \<open>df\<close> has, as in line 91: a Series is written to
  every column labelled \<open>k\<close>; a frame must have as many columns as \<open>df\<close> has columns
  labelled \<open>k\<close> ("Columns must be same length as key") and is written to them in order.
\<close>

fun setitem :: "table \<Rightarrow> string \<Rightarrow> item \<Rightarrow> py_error + table" where
  "setitem df k (Series s) = Inr (map (\<lambda>c. if name c = k then c\<lparr>vals := vals s\<rparr> else c) df)"
| "setitem df k (Frame v) =
     (if length (filter (\<lambda>c. name c = k) df) \<noteq> length v then Inl ValueError
      else Inr (set_cols k df v))"

fun setitem_loop :: "table \<Rightarrow> (string \<times> string) list \<Rightarrow> table \<Rightarrow> py_error + table" where
  "setitem_loop df [] v = Inr df"
| "setitem_loop df ((k1, k2) # ps) v =
     (case setitem df k1 (getitem v k2) of
        Inl e \<Rightarrow> Inl e
      | Inr df' \<Rightarrow> setitem_loop df' ps v)"

text \<open>
  \<open>df[keys] = value\<close> with a frame on the right, as pandas 1.3 and later do it: the
  number of columns of \<open>value\<close> must be the number of keys (of columns the keys select,
  when the labels of \<open>df\<close> are not unique); then
  \<open>for k1, k2 in zip(keys, value.columns): df[k1] = value[k2]\<close>.
\<close>

definition setitem_array :: "table \<Rightarrow> string list \<Rightarrow> table \<Rightarrow> py_error + table" where
  "setitem_array df keys v =
     (if (if distinct (map name df) then length v \<noteq> length keys
          else length (getitem_cols df keys) \<noteq> length v)
      then Inl ValueError
      else setitem_loop df (zip keys (map name v)) v)"

definition scale :: "float_ops \<Rightarrow> table \<Rightarrow> string list \<Rightarrow> py_error + table" where
  "scale fp encoded_data keys =
     setitem_array encoded_data keys (map (scale_col fp) (getitem_cols encoded_data keys))"

section \<open>Renaming (line 94) and the whole of \<open>preprocess_data\<close>\<close>

text \<open>\<open>columns.str.replace("_", "")\<close>\<close>

definition rename :: "column \<Rightarrow> column" where
  "rename c = c\<lparr>name := filter (\<lambda>ch. ch \<noteq> CHR ''_'') (name c)\<rparr>"

text \<open>
  \<open>preprocess_data\<close> assigns into its argument, so the model returns the argument as the
  call leaves it together with the outcome: the returned table, or the exception.
\<close>

definition preprocess_data :: "float_ops \<Rightarrow> table \<Rightarrow> table \<times> (py_error + table)" where
  "preprocess_data fp data =
     (let columns = categorical_columns data;
          keys = numerical_columns data;
          data1 = map (impute_numerical fp) data
      in if mode_empty data1 then (data1, Inl IndexError)
         else
           (let data2 = map impute_categorical data1;
                encoded_data = get_dummies data2 columns
            in (data2,
                case scale fp encoded_data keys of
                  Inl e \<Rightarrow> Inl e
                | Inr scaled \<Rightarrow> Inr (map rename scaled))))"


section \<open>Properties of tables used in the statements\<close>

text \<open>The names of the indicator columns that the encoding of a table produces.\<close>

definition indicator_names :: "table \<Rightarrow> string list" where
  "indicator_names data =
     concat (map (\<lambda>c. map (\<lambda>l. name c @ ''_'' @ l) (levels (obj_cells c)))
                 (filter (\<lambda>c. is_object (vals c)) data))"

text \<open>
  The column names of the table are unique, and no int64 or float64 column bears the
  name of an indicator column: then every label of \<open>numerical_columns\<close> selects one
  column of the encoded table.
\<close>

definition labels_unambiguous :: "table \<Rightarrow> bool" where
  "labels_unambiguous data \<longleftrightarrow>
     distinct (map name data)
     \<and> list_all (\<lambda>k. k \<notin> set (indicator_names data)) (numerical_columns data)"

text \<open>All columns have \<open>n\<close> rows.\<close>

definition rectangular :: "table \<Rightarrow> nat \<Rightarrow> bool" where
  "rectangular data n = list_all (\<lambda>c. nrows (vals c) = n) data"

text \<open>
  A float64 column that the fill and the scaling can handle: if it has a missing cell,
  its float mean is not NaN; and once the missing cells are filled with that mean, its
  float mean is finite and its float standard deviation is finite and not zero.
\<close>

definition scalable :: "float_ops \<Rightarrow> fl list \<Rightarrow> bool" where
  "scalable fp xs \<longleftrightarrow>
     (NaN \<in> set xs \<longrightarrow> mean fp xs \<noteq> NaN)
     \<and> (case mean fp (fillna xs (mean fp xs)) of Fin m \<Rightarrow> True | _ \<Rightarrow> False)
     \<and> (case std fp (fillna xs (mean fp xs)) of Fin s \<Rightarrow> s \<noteq> 0 | _ \<Rightarrow> False)"

text \<open>The cells of a bool column.\<close>

definition bool_cells :: "column \<Rightarrow> bool list" where
  "bool_cells c = (case vals c of BoolData bs \<Rightarrow> bs | _ \<Rightarrow> [])"

section \<open>Example tables\<close>

text \<open>The table \<open>{age: [25, NaN, 35], city: [NY, NY, LA]}\<close>.\<close>

definition people :: table where
  "people = [\<lparr>name = ''age'', vals = FloatData [Fin 25, NaN, Fin 35]\<rparr>,
             \<lparr>name = ''city'', vals = ObjData [Some ''NY'', Some ''NY'', Some ''LA'']\<rparr>]"

text \<open>An int64 column that bears the name of an indicator column of the table.\<close>

definition clash :: table where
  "clash = [\<lparr>name = ''a_b'', vals = IntData [0, 0, 0, 2]\<rparr>,
            \<lparr>name = ''a'', vals = ObjData [Some ''b'', Some ''c'', Some ''c'', Some ''c'']\<rparr>]"

text \<open>A constant int64 column, a float64 column without any value, and an object column
  without any value, each beside an object column with two values.\<close>

definition constant_column :: table where
  "constant_column = [\<lparr>name = ''x'', vals = IntData [5, 5]\<rparr>,
               \<lparr>name = ''c'', vals = ObjData [Some ''a'', Some ''b'']\<rparr>]"

definition all_missing :: table where
  "all_missing = [\<lparr>name = ''x'', vals = FloatData [NaN, NaN]\<rparr>,
                  \<lparr>name = ''c'', vals = ObjData [Some ''a'', Some ''b'']\<rparr>]"

definition no_category :: table where
  "no_category = [\<lparr>name = ''c1'', vals = ObjData [None, None]\<rparr>,
                  \<lparr>name = ''c2'', vals = ObjData [Some ''a'', Some ''b'']\<rparr>]"

section \<open>Plots: \<open>visualize_scatterplot\<close> and \<open>visualize_pie_chart\<close>\<close>

text \<open>
  \<open>data[column]\<close> where a Series is needed: with a label that the table does not have
  the lookup raises KeyError; with a label that several columns bear it gives a frame,
  and \<open>.dtype\<close> of a frame raises AttributeError.
\<close>

definition getcol :: "table \<Rightarrow> string \<Rightarrow> py_error + column" where
  "getcol data k =
     (case filter (\<lambda>c. name c = k) data of
        [] \<Rightarrow> Inl KeyError
      | [c] \<Rightarrow> Inr c
      | _ \<Rightarrow> Inl AttributeError)"

text \<open>\<open>len(data[column].unique())\<close>: the distinct cells, the missing marker counted as one.\<close>

definition unique_len :: "column \<Rightarrow> nat" where
  "unique_len c = length (remdups (cells (vals c)))"

text \<open>
  What is handed to the renderer: the seaborn or matplotlib call with the columns of its
  axes, the \<open>hue\<close> column and the number of palette colours (the colours themselves are
  drawn at random by the code), or the pie with its counts and labels; and the title.
\<close>

datatype plot_call =
    Scatterplot string string "string option" "nat option"
  | Stripplot string string "string option" "nat option"
  | Pie "nat list" "cell list"

record chart =
  call :: plot_call
  title :: string

definition visualize_scatterplot :: "table \<Rightarrow> string \<Rightarrow> string \<Rightarrow> py_error + chart" where
  "visualize_scatterplot data x_column y_column =
     (case getcol data x_column of
        Inl e \<Rightarrow> Inl e
      | Inr cx \<Rightarrow>
          (case getcol data y_column of
             Inl e \<Rightarrow> Inl e
           | Inr cy \<Rightarrow>
               Inr \<lparr>call =
                      (if is_object (vals cx) \<and> is_object (vals cy) then
                         Scatterplot x_column y_column (Some x_column) (Some (unique_len cx))
                       else if is_object (vals cx) then
                         Stripplot x_column y_column (Some x_column) (Some (unique_len cx))
                       else if is_object (vals cy) then
                         Stripplot x_column y_column (Some y_column) (Some (unique_len cy))
                       else Scatterplot x_column y_column None None),
                    title = x_column @ '' vs '' @ y_column @ '' Scatterplot''\<rparr>))"

text \<open>The distinct elements of a list in the order of their first occurrence.\<close>

definition uniq :: "'a list \<Rightarrow> 'a list" where
  "uniq xs = rev (remdups (rev xs))"

text \<open>
  \<open>Series.value_counts()\<close>: every distinct non-missing value with the number of its
  occurrences, the largest count first. Values of equal count are left in the order of
  their first occurrence, which is what pandas gives for a short column; no statement
  below depends on their order.
\<close>

definition value_counts :: "coldata \<Rightarrow> (cell \<times> nat) list" where
  "value_counts d =
     (let xs = map the (filter (\<lambda>v. v \<noteq> None) (cells d))
      in sort_key (\<lambda>(v, n). - int n) (map (\<lambda>v. (v, count_list xs v)) (uniq xs)))"

text \<open>
  \<open>visualize_pie_chart\<close>. With a label that several columns bear, \<open>data[column]\<close> is a
  frame, and its \<open>value_counts\<close> groups by the repeated label, which pandas refuses with
  a ValueError. For a column without any value the counts are empty, and \<open>plt.pie\<close>
  (matplotlib 3.11) raises a ValueError.
\<close>

definition visualize_pie_chart :: "table \<Rightarrow> string \<Rightarrow> py_error + chart" where
  "visualize_pie_chart data column =
     (case filter (\<lambda>c. name c = column) data of
        [] \<Rightarrow> Inl KeyError
      | [c] \<Rightarrow>
          (let value_counts = value_counts (vals c);
               labels = map fst value_counts;
               counts = map snd value_counts
           in if counts = [] then Inl ValueError
              else Inr \<lparr>call = Pie counts labels, title = column @ '' Pie Chart''\<rparr>)
      | _ \<Rightarrow> Inl ValueError)"

section \<open>A table without object column\<close>

lemma mode_empty_no_object:
  "filter (\<lambda>c. is_object (vals c)) data = [] \<Longrightarrow> mode_empty data"
  by (simp add: mode_empty_def)

lemma is_object_impute_numerical [simp]:
  "is_object (vals (impute_numerical fp c)) = is_object (vals c)"
  by (cases "vals c") (simp_all add: impute_numerical_def)

text \<open>
  C10: on a table that has no object-dtype column, \<open>preprocess_data\<close> returns no table:
  the first row of the modes of the empty selection does not exist and the call ends
  with an IndexError.
\<close>

theorem preprocess_no_categorical_IndexError:
  assumes "\<forall>c \<in> set data. \<not> is_object (vals c)"
  shows "snd (preprocess_data fp data) = Inl IndexError"
proof -
  have "filter (\<lambda>c. is_object (vals c)) (map (impute_numerical fp) data) = []"
    using assms by (induction data) simp_all
  then have "mode_empty (map (impute_numerical fp) data)"
    by (rule mode_empty_no_object)
  then show ?thesis
    by (simp add: preprocess_data_def Let_def)
qed

theorem preprocess_no_categorical_IndexError_witness:
  "\<not> is_object (vals \<lparr>name = ''age'', vals = FloatData [Fin 25, NaN, Fin 35]\<rparr>)
   \<and> snd (preprocess_data exact [\<lparr>name = ''age'', vals = FloatData [Fin 25, NaN, Fin 35]\<rparr>])
       = Inl IndexError"
  using preprocess_no_categorical_IndexError
    [where data = "[\<lparr>name = ''age'', vals = FloatData [Fin 25, NaN, Fin 35]\<rparr>]" and fp = exact]
  by simp

section \<open>The plots\<close>

text \<open>
  C9: the scatter plot is chosen by the dtypes of the two columns, object or not:
  (object, object) is a scatter plot coloured by the x column, (object, other) a strip
  plot coloured by the x column, (other, object) a strip plot coloured by the y column,
  (other, other) a plain scatter plot without grouping.
\<close>

theorem scatterplot_by_type_signature:
  assumes "getcol data x_column = Inr cx" and "getcol data y_column = Inr cy"
  shows "\<exists>ch. visualize_scatterplot data x_column y_column = Inr ch \<and>
     call ch =
       (case (is_object (vals cx), is_object (vals cy)) of
          (True, True) \<Rightarrow> Scatterplot x_column y_column (Some x_column) (Some (unique_len cx))
        | (True, False) \<Rightarrow> Stripplot x_column y_column (Some x_column) (Some (unique_len cx))
        | (False, True) \<Rightarrow> Stripplot x_column y_column (Some y_column) (Some (unique_len cy))
        | (False, False) \<Rightarrow> Scatterplot x_column y_column None None)"
  using assms by (simp add: visualize_scatterplot_def)

theorem scatterplot_by_type_signature_witness:
  "getcol [\<lparr>name = ''age'', vals = FloatData [Fin 25, NaN, Fin 35]\<rparr>,
           \<lparr>name = ''city'', vals = ObjData [Some ''NY'', Some ''NY'', Some ''LA'']\<rparr>] ''city''
     = Inr \<lparr>name = ''city'', vals = ObjData [Some ''NY'', Some ''NY'', Some ''LA'']\<rparr>
   \<and> getcol [\<lparr>name = ''age'', vals = FloatData [Fin 25, NaN, Fin 35]\<rparr>,
           \<lparr>name = ''city'', vals = ObjData [Some ''NY'', Some ''NY'', Some ''LA'']\<rparr>] ''age''
     = Inr \<lparr>name = ''age'', vals = FloatData [Fin 25, NaN, Fin 35]\<rparr>
   \<and> (\<exists>ch. visualize_scatterplot
              [\<lparr>name = ''age'', vals = FloatData [Fin 25, NaN, Fin 35]\<rparr>,
               \<lparr>name = ''city'', vals = ObjData [Some ''NY'', Some ''NY'', Some ''LA'']\<rparr>]
              ''city'' ''age'' = Inr ch
           \<and> call ch = Stripplot ''city'' ''age'' (Some ''city'') (Some 2))"
  using scatterplot_by_type_signature
    [of "[\<lparr>name = ''age'', vals = FloatData [Fin 25, NaN, Fin 35]\<rparr>,
          \<lparr>name = ''city'', vals = ObjData [Some ''NY'', Some ''NY'', Some ''LA'']\<rparr>]"
        "''city''" "\<lparr>name = ''city'', vals = ObjData [Some ''NY'', Some ''NY'', Some ''LA'']\<rparr>"
        "''age''" "\<lparr>name = ''age'', vals = FloatData [Fin 25, NaN, Fin 35]\<rparr>"]
  by (simp add: getcol_def unique_len_def eval_nat_numeral)

lemma getcol_Inr: "getcol data k = Inr c \<Longrightarrow> filter (\<lambda>c. name c = k) data = [c]"
  by (auto simp: getcol_def split: list.splits)

lemma count_list_the:
  "count_list (map the (filter (\<lambda>v. v \<noteq> None) ys)) w = count_list ys (Some w)"
  by (induction ys) auto

lemma set_uniq [simp]: "set (uniq xs) = set xs"
  by (simp add: uniq_def)

lemma distinct_uniq [simp]: "distinct (uniq xs)"
  by (simp add: uniq_def)

text \<open>The rows of \<open>value_counts\<close>: the distinct values, each with its count, by
  descending count.\<close>

lemma value_counts_rows:
  assumes "(v, n) \<in> set (value_counts d)"
  shows "n = count_list (cells d) (Some v)"
proof -
  let ?xs = "map the (filter (\<lambda>v. v \<noteq> None) (cells d))"
  from assms have "(v, n) \<in> set (map (\<lambda>v. (v, count_list ?xs v)) (uniq ?xs))"
    unfolding value_counts_def Let_def by (simp only: set_sort)
  then have "n = count_list ?xs v" by auto
  then show ?thesis by (simp only: count_list_the)
qed

lemma value_counts_labels:
  "set (map fst (value_counts d)) = {v. Some v \<in> set (cells d)}"
  by (force simp: value_counts_def Let_def comp_def image_iff)

lemma value_counts_distinct: "distinct (map fst (value_counts d))"
proof -
  let ?xs = "map the (filter (\<lambda>v. v \<noteq> None) (cells d))"
  have "mset (map fst (value_counts d)) = mset (uniq ?xs)"
    by (simp add: value_counts_def Let_def multiset.map_comp comp_def)
  then show ?thesis
    by (metis distinct_uniq mset_eq_imp_distinct_iff)
qed

lemma value_counts_descending: "sorted_wrt (\<ge>) (map snd (value_counts d))"
proof -
  let ?f = "\<lambda>(v :: cell, n :: nat). - int n"
  have "sorted (map ?f (value_counts d))"
    unfolding value_counts_def Let_def by (rule sorted_sort_key)
  then have "sorted_wrt (\<lambda>p q. ?f p \<le> ?f q) (value_counts d)"
    by (simp add: sorted_wrt_map)
  then have "sorted_wrt (\<lambda>p q. snd p \<ge> snd q) (value_counts d)"
    by (rule sorted_wrt_mono_rel[rotated]) auto
  then show ?thesis
    by (simp add: sorted_wrt_map)
qed

lemma value_counts_nth:
  assumes "i < length (value_counts d)"
  shows "map snd (value_counts d) ! i
           = count_list (cells d) (Some (map fst (value_counts d) ! i))"
proof -
  from assms have "value_counts d ! i \<in> set (value_counts d)" by simp
  then have "(fst (value_counts d ! i), snd (value_counts d ! i)) \<in> set (value_counts d)"
    by simp
  from value_counts_rows[OF this] show ?thesis
    using assms by simp
qed

text \<open>
  C5 as stated fails: a pie chart of an int64 column is drawn, nothing is raised.
\<close>

theorem pie_chart_numerical_counterexample:
  "is_numerical (IntData [1, 2, 2])
   \<and> visualize_pie_chart [\<lparr>name = ''n'', vals = IntData [1, 2, 2]\<rparr>] ''n''
       = Inr \<lparr>call = Pie [2, 1] [I 2, I 1], title = ''n Pie Chart''\<rparr>"
  by (simp add: visualize_pie_chart_def value_counts_def uniq_def)

text \<open>
  C5, amended: for every label that exactly one column of the table bears, if that
  column has at least one non-missing value then, whatever its dtype,
  \<open>visualize_pie_chart\<close> hands a pie to the renderer: one slice per distinct non-missing
  value, labelled with the value and sized by the number of its occurrences, the
  largest first.
\<close>

theorem pie_chart_slices:
  assumes "getcol data column = Inr c" and "Some v \<in> set (cells (vals c))"
  shows "\<exists>counts labels.
           visualize_pie_chart data column
             = Inr \<lparr>call = Pie counts labels, title = column @ '' Pie Chart''\<rparr>
           \<and> distinct labels
           \<and> set labels = {v. Some v \<in> set (cells (vals c))}
           \<and> length counts = length labels
           \<and> (\<forall>i < length labels. counts ! i = count_list (cells (vals c)) (Some (labels ! i)))
           \<and> sorted_wrt (\<ge>) counts"
proof -
  let ?vc = "value_counts (vals c)"
  have "v \<in> set (map fst ?vc)"
    unfolding value_counts_labels using assms(2) by simp
  then have ne: "map snd ?vc \<noteq> []" by auto
  have "visualize_pie_chart data column
          = Inr \<lparr>call = Pie (map snd ?vc) (map fst ?vc), title = column @ '' Pie Chart''\<rparr>"
    using getcol_Inr[OF assms(1)] ne by (simp add: visualize_pie_chart_def Let_def)
  moreover have "\<forall>i < length (map fst ?vc).
      map snd ?vc ! i = count_list (cells (vals c)) (Some (map fst ?vc ! i))"
    using value_counts_nth[of _ "vals c"] by simp
  ultimately show ?thesis
    using value_counts_distinct[of "vals c"] value_counts_labels[of "vals c"]
      value_counts_descending[of "vals c"]
    by (intro exI[of _ "map snd ?vc"] exI[of _ "map fst ?vc"]) simp
qed

theorem pie_chart_slices_witness:
  "getcol [\<lparr>name = ''n'', vals = IntData [1, 2, 2]\<rparr>] ''n''
     = Inr \<lparr>name = ''n'', vals = IntData [1, 2, 2]\<rparr>
   \<and> Some (I 1) \<in> set (cells (IntData [1, 2, 2]))
   \<and> (\<exists>counts labels.
         visualize_pie_chart [\<lparr>name = ''n'', vals = IntData [1, 2, 2]\<rparr>] ''n''
           = Inr \<lparr>call = Pie counts labels, title = ''n Pie Chart''\<rparr>
         \<and> distinct labels
         \<and> set labels = {v. Some v \<in> set (cells (IntData [1, 2, 2]))}
         \<and> length counts = length labels
         \<and> (\<forall>i < length labels. counts ! i = count_list (cells (IntData [1, 2, 2])) (Some (labels ! i)))
         \<and> sorted_wrt (\<ge>) counts)"
  using pie_chart_slices
    [of "[\<lparr>name = ''n'', vals = IntData [1, 2, 2]\<rparr>]" "''n''"
        "\<lparr>name = ''n'', vals = IntData [1, 2, 2]\<rparr>" "I 1"]
  by (simp add: getcol_def)

section \<open>The mode of an object column\<close>

lemma count_list_present: "count_list (present vs) w = count_list vs (Some w)"
  by (induction vs) (auto simp: present_def)

lemma set_present: "set (present vs) = {w. Some w \<in> set vs}"
  by (force simp: present_def image_iff)

lemma fold_max_ge: "(a::nat) \<le> fold max ns a"
  by (induction ns arbitrary: a) (auto intro: order_trans[OF max.cobounded2])

lemma fold_max_upper: "n \<in> set ns \<Longrightarrow> (n::nat) \<le> fold max ns a"
proof (induction ns arbitrary: a)
  case Nil
  then show ?case by simp
next
  case (Cons k ns)
  show ?case
  proof (cases "n = k")
    case True
    have "k \<le> max k a" by simp
    also have "\<dots> \<le> fold max ns (max k a)" by (rule fold_max_ge)
    finally show ?thesis using True by simp
  next
    case False
    with Cons show ?thesis by simp
  qed
qed

lemma fold_max_attained: "fold max ns a = a \<or> fold max ns (a::nat) \<in> set ns"
proof (induction ns arbitrary: a)
  case Nil
  then show ?case by simp
next
  case (Cons k ns)
  from Cons.IH[of "max k a"] show ?case
    by (auto simp: max_def split: if_splits)
qed

lemma top_count_attained:
  assumes "xs \<noteq> []"
  shows "\<exists>x \<in> set xs. fold max (map (count_list xs) xs) 0 = count_list xs x"
proof -
  let ?t = "fold max (map (count_list xs) xs) 0"
  from assms obtain y where y: "y \<in> set xs" by (cases xs) auto
  then have "0 < count_list xs y" using count_list_0_iff[of xs y] by simp
  moreover have "count_list xs y \<le> ?t" using y by (intro fold_max_upper) simp
  ultimately have "?t \<noteq> 0" by simp
  with fold_max_attained[of "map (count_list xs) xs" 0] show ?thesis by auto
qed

lemma top_count_upper:
  "count_list xs w \<le> fold max (map (count_list xs) xs) 0"
proof (cases "w \<in> set xs")
  case True
  then show ?thesis by (intro fold_max_upper) simp
next
  case False
  then show ?thesis by (simp add: count_list_0_iff)
qed

lemma set_mode:
  "set (mode vs) = {w. Some w \<in> set vs \<and> (\<forall>u. count_list vs (Some u) \<le> count_list vs (Some w))}"
proof -
  let ?xs = "present vs"
  let ?t = "fold max (map (count_list ?xs) ?xs) 0"
  have "set (mode vs) = {w \<in> set ?xs. count_list ?xs w = ?t}"
    by (auto simp: mode_def Let_def)
  also have "\<dots> = {w \<in> set ?xs. \<forall>u. count_list ?xs u \<le> count_list ?xs w}"
  proof (intro Collect_cong conj_cong refl iffI allI)
    fix w u assume "count_list ?xs w = ?t"
    then show "count_list ?xs u \<le> count_list ?xs w"
      using top_count_upper[of ?xs u] by simp
  next
    fix w assume w: "w \<in> set ?xs" and *: "\<forall>u. count_list ?xs u \<le> count_list ?xs w"
    then have "?xs \<noteq> []" by auto
    from top_count_attained[OF this] obtain x where "?t = count_list ?xs x" by blast
    with * have "?t \<le> count_list ?xs w" by simp
    with top_count_upper[of ?xs w] show "count_list ?xs w = ?t" by simp
  qed
  finally show ?thesis by (simp add: set_present count_list_present)
qed

lemma mode_nonempty:
  assumes "Some v \<in> set vs"
  shows "mode vs \<noteq> []"
proof -
  let ?xs = "present vs"
  from assms have "?xs \<noteq> []" using set_present[of vs] by auto
  from top_count_attained[OF this] obtain x where x: "x \<in> set ?xs"
    and t: "fold max (map (count_list ?xs) ?xs) 0 = count_list ?xs x" by blast
  have "x \<in> set (mode vs)"
    unfolding set_mode using x t top_count_upper[of ?xs]
    by (simp add: set_present count_list_present)
  then show ?thesis by auto
qed

lemma mode_empty_iff: "mode vs = [] \<longleftrightarrow> (\<forall>v \<in> set vs. v = None)"
proof
  assume "mode vs = []"
  then show "\<forall>v \<in> set vs. v = None"
    using mode_nonempty[of _ vs] by (metis not_Some_eq)
next
  assume "\<forall>v \<in> set vs. v = None"
  then have "set (mode vs) = {}" unfolding set_mode by auto
  then show "mode vs = []" by simp
qed

lemma sorted_mode: "sorted (mode vs)"
  by (simp add: mode_def Let_def)

lemma mode_head:
  assumes "mode vs = m # ms"
  shows "Some m \<in> set vs"
    and "count_list vs (Some w) \<le> count_list vs (Some m)"
    and "Some w \<in> set vs \<Longrightarrow> count_list vs (Some w) = count_list vs (Some m) \<Longrightarrow> m \<le> w"
proof -
  have m: "m \<in> set (mode vs)" using assms by simp
  then show "Some m \<in> set vs" and c: "count_list vs (Some w) \<le> count_list vs (Some m)"
    unfolding set_mode by auto
  assume "Some w \<in> set vs" and "count_list vs (Some w) = count_list vs (Some m)"
  then have "w \<in> set (mode vs)"
    using m unfolding set_mode by auto
  then show "m \<le> w"
    using sorted_mode[of vs] assms by auto
qed

lemma vals_impute_numerical_obj [simp]:
  "vals c = ObjData vs \<Longrightarrow> impute_numerical fp c = c"
  by (simp add: impute_numerical_def)

lemma mode_empty_iff_all:
  "mode_empty data \<longleftrightarrow> (\<forall>c \<in> set data. mode (obj_cells c) = [])"
proof -
  have "\<not> is_object (vals c) \<Longrightarrow> mode (obj_cells c) = []" for c
    by (cases "vals c") (simp_all add: obj_cells_def mode_def present_def)
  then show ?thesis
    by (auto simp: mode_empty_def list_all_iff)
qed

lemma not_mode_empty:
  assumes "i < length data" and "vals (data ! i) = ObjData vs" and "Some v \<in> set vs"
  shows "\<not> mode_empty (map (impute_numerical fp) data)"
proof -
  have "impute_numerical fp (data ! i) \<in> set (map (impute_numerical fp) data)"
    using assms(1) by simp
  moreover have "mode (obj_cells (impute_numerical fp (data ! i))) \<noteq> []"
    using assms(2,3) by (simp add: obj_cells_def mode_nonempty)
  ultimately show ?thesis
    unfolding mode_empty_iff_all by blast
qed

text \<open>
  C6 as stated fails: in the column \<open>b, a, missing\<close> the two values are tied and \<open>b\<close>
  comes first, yet the missing cell is filled with \<open>a\<close>.
\<close>

theorem impute_categorical_first_seen_counterexample:
  "count_list [Some ''b'', Some ''a'', None] (Some ''b'') = count_list [Some ''b'', Some ''a'', None] (Some ''a'')
   \<and> fst (preprocess_data exact [\<lparr>name = ''c'', vals = ObjData [Some ''b'', Some ''a'', None]\<rparr>])
       = [\<lparr>name = ''c'', vals = ObjData [Some ''b'', Some ''a'', Some ''a'']\<rparr>]
   \<and> fst (preprocess_data exact [\<lparr>name = ''c'', vals = ObjData [Some ''b'', Some ''a'', None]\<rparr>])
       \<noteq> [\<lparr>name = ''c'', vals = ObjData [Some ''b'', Some ''a'', Some ''b'']\<rparr>]"
  by (simp add: preprocess_data_def mode_empty_def impute_categorical_def impute_numerical_def
      mode_def present_def obj_cells_def Let_def)

text \<open>
  C6, amended: in an object column with at least one non-missing value every missing
  cell is replaced by a most frequent non-missing value of the column, and when several
  values are tied for most frequent, by the smallest of them in the order of strings
  (\<open>Series.mode\<close> sorts its result and the code takes its first row). The other cells
  and the name of the column stay as they are.
\<close>

theorem impute_categorical_smallest_mode:
  assumes "i < length data" and "vals (data ! i) = ObjData vs" and "Some v \<in> set vs"
  shows "\<exists>m. fst (preprocess_data fp data) ! i
               = (data ! i)\<lparr>vals := ObjData (map (\<lambda>x. case x of None \<Rightarrow> Some m | Some y \<Rightarrow> Some y) vs)\<rparr>
           \<and> Some m \<in> set vs
           \<and> (\<forall>w. count_list vs (Some w) \<le> count_list vs (Some m))
           \<and> (\<forall>w. Some w \<in> set vs \<and> count_list vs (Some w) = count_list vs (Some m) \<longrightarrow> m \<le> w)"
proof -
  from mode_nonempty[OF assms(3)] obtain m ms where m: "mode vs = m # ms"
    by (cases "mode vs") auto
  have "fst (preprocess_data fp data) = map impute_categorical (map (impute_numerical fp) data)"
    using not_mode_empty[OF assms] by (simp add: preprocess_data_def Let_def)
  then have "fst (preprocess_data fp data) ! i = impute_categorical (data ! i)"
    using assms(1,2) by simp
  also have "\<dots> = (data ! i)\<lparr>vals := ObjData (map (\<lambda>x. case x of None \<Rightarrow> Some m | Some y \<Rightarrow> Some y) vs)\<rparr>"
    using assms(2) m by (simp add: impute_categorical_def)
  finally show ?thesis
    using mode_head[OF m] by blast
qed

theorem impute_categorical_smallest_mode_witness:
  "(0::nat) < length [\<lparr>name = ''c'', vals = ObjData [Some ''b'', Some ''a'', None]\<rparr>]
   \<and> Some ''b'' \<in> set [Some ''b'', Some ''a'', None]
   \<and> (\<exists>m. fst (preprocess_data exact [\<lparr>name = ''c'', vals = ObjData [Some ''b'', Some ''a'', None]\<rparr>]) ! 0
             = \<lparr>name = ''c'', vals = ObjData [Some ''b'', Some ''a'', Some m]\<rparr>
          \<and> m \<le> ''a'' \<and> m \<le> ''b'')"
  using impute_categorical_smallest_mode
    [of 0 "[\<lparr>name = ''c'', vals = ObjData [Some ''b'', Some ''a'', None]\<rparr>]"
        "[Some ''b'', Some ''a'', None]" "''b''"]
  by (simp; fastforce)

section \<open>The argument table after the call\<close>

lemma fillna_no_missing: "NaN \<notin> set xs \<Longrightarrow> fillna xs v = xs"
  by (induction xs) (auto simp: fillna_def)

lemma impute_both:
  "impute_categorical (impute_numerical fp c)
     = (if is_object (vals c) then impute_categorical c else impute_numerical fp c)"
  by (cases "vals c") (simp_all add: impute_categorical_def impute_numerical_def)

lemma mode_empty_impute_numerical [simp]:
  "mode_empty (map (impute_numerical fp) data) = mode_empty data"
proof -
  have "obj_cells (impute_numerical fp c) = obj_cells c" for c
    by (cases "vals c") (simp_all add: impute_numerical_def obj_cells_def)
  then show ?thesis
    by (simp add: mode_empty_iff_all)
qed


lemma length_cells [simp]: "length (cells d) = nrows d"
  by (cases d) simp_all












section \<open>The names of the encoded table\<close>

lemma set_cols_names: "map name (set_cols k df v) = map name df"
  by (induction k df v rule: set_cols.induct) simp_all

lemma setitem_names: "setitem df k it = Inr df' \<Longrightarrow> map name df' = map name df"
  by (cases it) (auto simp: set_cols_names comp_def split: if_splits)

lemma setitem_loop_names:
  "setitem_loop df ps v = Inr df' \<Longrightarrow> map name df' = map name df"
proof (induction df ps v arbitrary: df' rule: setitem_loop.induct)
  case (1 df v)
  then show ?case by simp
next
  case (2 df k1 k2 ps v)
  then show ?case
    by (auto split: sum.splits dest: setitem_names)
qed

lemma scale_names: "scale fp df keys = Inr df' \<Longrightarrow> map name df' = map name df"
  by (auto simp: scale_def setitem_array_def split: if_splits dest: setitem_loop_names)

lemma levels_sorted_list_of_set: "levels vs = sorted_list_of_set {w. Some w \<in> set vs}"
proof -
  have "set (present vs) = {w. Some w \<in> set vs}"
    by (force simp: present_def image_iff)
  then show ?thesis
    by (simp add: levels_def sorted_list_of_set_sort_remdups[symmetric])
qed

lemma names_get_dummies_1d:
  "map name (get_dummies_1d c) = map (\<lambda>l. name c @ ''_'' @ l) (levels (obj_cells c))"
  by (simp add: get_dummies_1d_def comp_def)

lemma impute_categorical_not_object [simp]:
  "\<not> is_object (vals c) \<Longrightarrow> impute_categorical c = c"
  by (cases "vals c") (simp_all add: impute_categorical_def)

lemma impute_numerical_object [simp]:
  "is_object (vals c) \<Longrightarrow> impute_numerical fp c = c"
  by (cases "vals c") (simp_all add: impute_numerical_def)

lemma get_dummies_flags:
  "get_dummies (map g data) (map P data)
     = map g (filter (\<lambda>c. \<not> P c) data)
       @ concat (map (\<lambda>c. get_dummies_1d (g c)) (filter P data))"
proof -
  have "map fst (filter (\<lambda>(c, listed). \<not> listed) (zip (map g data) (map P data)))
          = map g (filter (\<lambda>c. \<not> P c) data)"
    by (induction data) simp_all
  moreover have "map (\<lambda>(c, listed). get_dummies_1d c)
                   (filter (\<lambda>(c, listed). listed) (zip (map g data) (map P data)))
          = map (\<lambda>c. get_dummies_1d (g c)) (filter P data)"
    by (induction data) simp_all
  ultimately show ?thesis
    by (simp only: get_dummies_def)
qed

lemma get_dummies_imputed:
  "get_dummies (map impute_categorical (map (impute_numerical fp) data)) (categorical_columns data)
     = map (impute_numerical fp) (filter (\<lambda>c. \<not> is_object (vals c)) data)
       @ concat (map get_dummies_1d (map impute_categorical (filter (\<lambda>c. is_object (vals c)) data)))"
proof -
  let ?g = "\<lambda>c. impute_categorical (impute_numerical fp c)"
  have "get_dummies (map ?g data) (map (\<lambda>c. is_object (vals c)) data)
     = map ?g (filter (\<lambda>c. \<not> is_object (vals c)) data)
       @ concat (map (\<lambda>c. get_dummies_1d (?g c)) (filter (\<lambda>c. is_object (vals c)) data))"
    by (rule get_dummies_flags)
  moreover have "map ?g (filter (\<lambda>c. \<not> is_object (vals c)) data)
          = map (impute_numerical fp) (filter (\<lambda>c. \<not> is_object (vals c)) data)"
    by (rule map_cong[OF refl]) (simp add: impute_both)
  moreover have "map (\<lambda>c. get_dummies_1d (?g c)) (filter (\<lambda>c. is_object (vals c)) data)
          = map get_dummies_1d (map impute_categorical (filter (\<lambda>c. is_object (vals c)) data))"
    unfolding map_map comp_def by (rule map_cong[OF refl]) simp
  ultimately show ?thesis
    by (simp only: categorical_columns_def map_map comp_def)
qed

lemma values_impute_categorical:
  "{w. Some w \<in> set (obj_cells (impute_categorical c))} = {w. Some w \<in> set (obj_cells c)}"
proof (cases "vals c")
  case (ObjData vs)
  show ?thesis
  proof (cases "mode vs")
    case Nil
    then have "\<forall>v \<in> set vs. v = None" by (simp add: mode_empty_iff)
    then have "{w. Some w \<in> set vs} = {}" by auto
    with ObjData Nil show ?thesis by (simp add: impute_categorical_def obj_cells_def)
  next
    case (Cons m ms)
    from mode_head(1)[OF Cons] have m: "Some m \<in> set vs" .
    have "{w. Some w \<in> set (map (\<lambda>v. case v of None \<Rightarrow> Some m | Some x \<Rightarrow> Some x) vs)}
            = {w. Some w \<in> set vs}"
      using m by (auto simp: image_iff split: option.splits)
    with ObjData Cons show ?thesis
      by (simp add: impute_categorical_def obj_cells_def)
  qed
qed (simp_all add: impute_categorical_def)

lemma levels_impute_categorical:
  "levels (obj_cells (impute_categorical c)) = levels (obj_cells c)"
  by (simp add: levels_sorted_list_of_set values_impute_categorical)

lemma name_impute_categorical [simp]: "name (impute_categorical c) = name c"
  by (cases "vals c") (simp_all add: impute_categorical_def split: list.splits)

lemma name_impute_numerical [simp]: "name (impute_numerical fp c) = name c"
  by (cases "vals c") (simp_all add: impute_numerical_def)

lemma names_dummies_imputed:
  "map name (concat (map get_dummies_1d (map impute_categorical cs)))
     = concat (map (\<lambda>c. map (\<lambda>l. name c @ ''_'' @ l) (levels (obj_cells c))) cs)"
  by (induction cs) (simp_all add: names_get_dummies_1d levels_impute_categorical)

lemma names_encoded:
  "map name (get_dummies (map impute_categorical (map (impute_numerical fp) data))
               (categorical_columns data))
     = map name (filter (\<lambda>c. \<not> is_object (vals c)) data) @ indicator_names data"
  by (simp only: get_dummies_imputed names_dummies_imputed indicator_names_def map_append)
    (simp add: comp_def)

lemma name_rename: "name (rename c) = filter (\<lambda>ch. ch \<noteq> CHR ''_'') (name c)"
  by (simp add: rename_def)

text \<open>
  C8 as stated fails: the columns \<open>a\<close> with the value \<open>b_c\<close> and \<open>a_b\<close> with the value
  \<open>c\<close> are both encoded as \<open>a_b_c\<close>, and the call returns a table with two columns of
  one name.
\<close>

theorem name_collision_counterexample:
  "map name (get_dummies [\<lparr>name = ''a'', vals = ObjData [Some ''b_c'']\<rparr>,
                          \<lparr>name = ''a_b'', vals = ObjData [Some ''c'']\<rparr>] [True, True])
     = [''a_b_c'', ''a_b_c'']
   \<and> snd (preprocess_data exact [\<lparr>name = ''a'', vals = ObjData [Some ''b_c'']\<rparr>,
                         \<lparr>name = ''a_b'', vals = ObjData [Some ''c'']\<rparr>])
     = Inr [\<lparr>name = ''abc'', vals = BoolData [True]\<rparr>, \<lparr>name = ''abc'', vals = BoolData [True]\<rparr>]"
  by (simp add: preprocess_data_def mode_empty_def impute_categorical_def impute_numerical_def
      mode_def present_def obj_cells_def Let_def numerical_columns_def get_dummies_def
      categorical_columns_def get_dummies_1d_def levels_def scale_def setitem_array_def getitem_cols_def rename_def)

text \<open>
  C8, amended: \<open>preprocess_data\<close> has no NameCollision condition. Whenever it returns a
  table, the names of its columns are, in order and with the underscores removed, the
  names of the columns that are not of object dtype followed by the name of every
  indicator column; each of them is kept, also when two of them are the same.
\<close>

theorem preprocess_keeps_every_indicator_name:
  assumes "snd (preprocess_data fp data) = Inr r"
  shows "map name r
           = map (filter (\<lambda>ch. ch \<noteq> CHR ''_''))
               (map name (filter (\<lambda>c. \<not> is_object (vals c)) data) @ indicator_names data)"
proof -
  let ?enc = "get_dummies (map impute_categorical (map (impute_numerical fp) data))
                (categorical_columns data)"
  from assms obtain scaled where s: "scale fp ?enc (numerical_columns data) = Inr scaled"
    and r: "r = map rename scaled"
    by (auto simp: preprocess_data_def Let_def split: if_splits sum.splits)
  have "map name r = map (filter (\<lambda>ch. ch \<noteq> CHR ''_'')) (map name scaled)"
    by (simp add: r comp_def name_rename)
  also have "map name scaled = map name ?enc"
    using s by (rule scale_names)
  finally show ?thesis by (simp only: names_encoded)
qed

theorem preprocess_keeps_every_indicator_name_witness:
  "snd (preprocess_data exact [\<lparr>name = ''a'', vals = ObjData [Some ''b_c'']\<rparr>,
                         \<lparr>name = ''a_b'', vals = ObjData [Some ''c'']\<rparr>])
     = Inr [\<lparr>name = ''abc'', vals = BoolData [True]\<rparr>, \<lparr>name = ''abc'', vals = BoolData [True]\<rparr>]
   \<and> map name [\<lparr>name = ''abc'', vals = BoolData [True]\<rparr>, \<lparr>name = ''abc'', vals = BoolData [True]\<rparr>]
     = map (filter (\<lambda>ch. ch \<noteq> CHR ''_''))
         (indicator_names [\<lparr>name = ''a'', vals = ObjData [Some ''b_c'']\<rparr>,
                           \<lparr>name = ''a_b'', vals = ObjData [Some ''c'']\<rparr>])"
proof -
  have e: "snd (preprocess_data exact [\<lparr>name = ''a'', vals = ObjData [Some ''b_c'']\<rparr>,
                         \<lparr>name = ''a_b'', vals = ObjData [Some ''c'']\<rparr>])
     = Inr [\<lparr>name = ''abc'', vals = BoolData [True]\<rparr>, \<lparr>name = ''abc'', vals = BoolData [True]\<rparr>]"
    by (simp add: preprocess_data_def mode_empty_def impute_categorical_def impute_numerical_def
      mode_def present_def obj_cells_def Let_def numerical_columns_def get_dummies_def
      categorical_columns_def get_dummies_1d_def levels_def scale_def setitem_array_def getitem_cols_def rename_def)
  from preprocess_keeps_every_indicator_name[OF e] show ?thesis
    using e by simp
qed

section \<open>Scaling when every label selects one column\<close>

lemma filter_same_key:
  "distinct (map f xs) \<Longrightarrow> x \<in> set xs \<Longrightarrow> filter (\<lambda>y. f y = f x) xs = [x]"
proof (induction xs)
  case Nil
  then show ?case by simp
next
  case (Cons a xs)
  show ?case
  proof (cases "a = x")
    case True
    with Cons.prems have "\<forall>y \<in> set xs. f y \<noteq> f x" by (auto simp: image_iff)
    then have "filter (\<lambda>y. f y = f x) xs = []" by (simp add: filter_empty_conv)
    with True show ?thesis by simp
  next
    case False
    with Cons show ?thesis by (auto simp: image_iff)
  qed
qed

lemma find_same_key:
  "distinct (map f xs) \<Longrightarrow> x \<in> set xs \<Longrightarrow> find (\<lambda>y. f y = f x) xs = Some x"
  by (induction xs) (auto simp: image_iff)

lemma name_scale_col [simp]: "name (scale_col fp c) = name c"
  by (simp add: scale_col_def Let_def)

lemma scale_col_update [simp]: "c\<lparr>vals := vals (scale_col fp c)\<rparr> = scale_col fp c"
  by (simp add: scale_col_def Let_def)

text \<open>The update that the assignment loop performs with the scaled columns \<open>ms\<close>.\<close>

lemma setitem_loop_series:
  assumes "distinct (map name ns)" and "set ms \<subseteq> set ns" and "distinct (map name ms)"
  shows "setitem_loop df (zip (map name ms) (map name ms)) (map (scale_col fp) ns)
           = Inr (map (\<lambda>c. case find (\<lambda>m. name m = name c) ms of
                              None \<Rightarrow> c
                            | Some m \<Rightarrow> c\<lparr>vals := vals (scale_col fp m)\<rparr>) df)"
  using assms(2,3)
proof (induction ms arbitrary: df)
  case Nil
  then show ?case by (simp add: map_idI)
next
  case (Cons m ms)
  then have m: "m \<in> set ns" by simp
  have "filter (\<lambda>c. name c = name m) (map (scale_col fp) ns)
          = map (scale_col fp) (filter (\<lambda>c. name c = name m) ns)"
    by (simp add: filter_map comp_def)
  also have "\<dots> = [scale_col fp m]"
    using filter_same_key[OF assms(1) m] by simp
  finally have g: "getitem (map (scale_col fp) ns) (name m) = Series (scale_col fp m)"
    by (simp add: getitem_def)
  have notin: "\<forall>k \<in> set ms. name k \<noteq> name m"
    using Cons.prems(2) by (auto simp: image_iff)
  have "setitem_loop df (zip (map name (m # ms)) (map name (m # ms))) (map (scale_col fp) ns)
          = setitem_loop (map (\<lambda>c. if name c = name m then c\<lparr>vals := vals (scale_col fp m)\<rparr> else c) df)
              (zip (map name ms) (map name ms)) (map (scale_col fp) ns)"
    by (simp add: g)
  also have "\<dots> = Inr (map (\<lambda>c. case find (\<lambda>k. name k = name c) ms of
                              None \<Rightarrow> c
                            | Some k \<Rightarrow> c\<lparr>vals := vals (scale_col fp k)\<rparr>)
                      (map (\<lambda>c. if name c = name m then c\<lparr>vals := vals (scale_col fp m)\<rparr> else c) df))"
    using Cons.prems by (intro Cons.IH) simp_all
  also have "\<dots> = Inr (map (\<lambda>c. case find (\<lambda>k. name k = name c) (m # ms) of
                              None \<Rightarrow> c
                            | Some k \<Rightarrow> c\<lparr>vals := vals (scale_col fp k)\<rparr>) df)"
  proof -
    have "find (\<lambda>k. name k = name m) ms = None"
      using notin by (simp add: find_None_iff)
    then show ?thesis by (auto simp: comp_def)
  qed
  finally show ?case .
qed

lemma scale_unambiguous:
  assumes dist: "distinct (map name P)"
    and dnum: "\<forall>d \<in> set D. \<not> is_numerical (vals d)"
    and clash: "\<forall>n \<in> set P. is_numerical (vals n) \<longrightarrow> name n \<notin> name ` set D"
  shows "scale fp (P @ D) (map name (filter (\<lambda>c. is_numerical (vals c)) P))
           = Inr (map (\<lambda>c. if is_numerical (vals c) then scale_col fp c else c) (P @ D))"
proof -
  let ?N = "filter (\<lambda>c. is_numerical (vals c)) P"
  let ?E = "P @ D"
  have dN: "distinct (map name ?N)"
    using dist by (simp add: distinct_map_filter)
  have one: "filter (\<lambda>c. name c = name n) ?E = [n]" if "n \<in> set ?N" for n
  proof -
    from that have n: "n \<in> set P" "is_numerical (vals n)" by auto
    have "filter (\<lambda>c. name c = name n) D = []"
      using clash n by (fastforce simp: filter_empty_conv image_iff)
    with filter_same_key[OF dist n(1)] show ?thesis by simp
  qed
  have "getitem_cols ?E (map name ns) = ns" if "set ns \<subseteq> set ?N" for ns
    using that
  proof (induction ns)
    case Nil
    then show ?case by (simp add: getitem_cols_def)
  next
    case (Cons n ns)
    then have "filter (\<lambda>c. name c = name n) ?E = [n]" by (intro one) simp
    with Cons show ?case by (simp add: getitem_cols_def)
  qed
  then have sel: "getitem_cols ?E (map name ?N) = ?N"
    by simp
  have upd: "(case find (\<lambda>m. name m = name c) ?N of None \<Rightarrow> c
               | Some m \<Rightarrow> c\<lparr>vals := vals (scale_col fp m)\<rparr>)
             = (if is_numerical (vals c) then scale_col fp c else c)" if c: "c \<in> set ?E" for c
  proof (cases "c \<in> set ?N")
    case True
    from find_same_key[OF dN True] True show ?thesis by simp
  next
    case False
    have "find (\<lambda>m. name m = name c) ?N = None"
    proof (rule ccontr)
      assume "find (\<lambda>m. name m = name c) ?N \<noteq> None"
      then obtain m where m: "m \<in> set P" "is_numerical (vals m)" "name m = name c"
        by (auto simp: find_None_iff)
      show False
      proof (cases "c \<in> set P")
        case True
        with m dist have "m = c" by (meson distinct_map inj_onD)
        with m True False show False by simp
      next
        case False
        with c have "c \<in> set D" by simp
        with clash m show False by (auto simp: image_iff)
      qed
    qed
    moreover have "\<not> is_numerical (vals c)"
      using False c dnum by auto
    ultimately show ?thesis by simp
  qed
  have "scale fp ?E (map name ?N)
          = setitem_loop ?E (zip (map name ?N) (map name (map (scale_col fp) ?N))) (map (scale_col fp) ?N)"
    unfolding scale_def setitem_array_def sel by simp
  also have "map name (map (scale_col fp) ?N) = map name ?N"
    by simp
  also have "setitem_loop ?E (zip (map name ?N) (map name ?N)) (map (scale_col fp) ?N)
          = Inr (map (\<lambda>c. case find (\<lambda>m. name m = name c) ?N of
                              None \<Rightarrow> c
                            | Some m \<Rightarrow> c\<lparr>vals := vals (scale_col fp m)\<rparr>) ?E)"
    by (rule setitem_loop_series[OF dN subset_refl dN])
  also have "\<dots> = Inr (map (\<lambda>c. if is_numerical (vals c) then scale_col fp c else c) ?E)"
    using upd by (simp cong: map_cong)
  finally show ?thesis .
qed

lemma is_numerical_impute_numerical [simp]:
  "is_numerical (vals (impute_numerical fp c)) = is_numerical (vals c)"
  by (cases "vals c") (simp_all add: impute_numerical_def)

lemma impute_numerical_other [simp]:
  "\<not> is_numerical (vals c) \<Longrightarrow> impute_numerical fp c = c"
  by (cases "vals c") (simp_all add: impute_numerical_def)

lemma numerical_not_object: "is_numerical d \<Longrightarrow> \<not> is_object d"
  by (cases d) simp_all

lemma numerical_columns_passthrough:
  "numerical_columns data
     = map name (filter (\<lambda>c. is_numerical (vals c))
                   (map (impute_numerical fp) (filter (\<lambda>c. \<not> is_object (vals c)) data)))"
  by (induction data) (auto simp: numerical_columns_def numerical_not_object)

lemma dummies_not_numerical:
  "d \<in> set (concat (map get_dummies_1d cs)) \<Longrightarrow> vals d = BoolData (bool_cells d)"
  by (auto simp: get_dummies_1d_def bool_cells_def)

lemma preprocess_normal_form:
  assumes u: "labels_unambiguous data" and m: "\<not> mode_empty data"
  shows "snd (preprocess_data fp data)
           = Inr (map rename
                   (map (\<lambda>c. if is_numerical (vals c) then scale_col fp (impute_numerical fp c) else c)
                        (filter (\<lambda>c. \<not> is_object (vals c)) data)
                    @ concat (map get_dummies_1d
                        (map impute_categorical (filter (\<lambda>c. is_object (vals c)) data)))))"
proof -
  let ?P = "map (impute_numerical fp) (filter (\<lambda>c. \<not> is_object (vals c)) data)"
  let ?D = "concat (map get_dummies_1d (map impute_categorical (filter (\<lambda>c. is_object (vals c)) data)))"
  have dist: "distinct (map name ?P)"
    using u by (simp add: labels_unambiguous_def comp_def distinct_map_filter)
  have dnum: "\<forall>d \<in> set ?D. \<not> is_numerical (vals d)"
    using dummies_not_numerical by (metis is_numerical.simps(4))
  have namesD: "name ` set ?D = set (indicator_names data)"
    using names_dummies_imputed[of "filter (\<lambda>c. is_object (vals c)) data"]
    by (metis indicator_names_def set_map)
  have clash: "\<forall>n \<in> set ?P. is_numerical (vals n) \<longrightarrow> name n \<notin> name ` set ?D"
  proof (intro ballI impI)
    fix n assume n: "n \<in> set ?P" "is_numerical (vals n)"
    then have "name n \<in> set (map name (filter (\<lambda>c. is_numerical (vals c)) ?P))"
      by simp
    then have "name n \<in> set (numerical_columns data)"
      by (simp only: numerical_columns_passthrough[where fp = fp, symmetric])
    with u show "name n \<notin> name ` set ?D"
      unfolding namesD by (auto simp: labels_unambiguous_def list_all_iff)
  qed
  have s0: "scale fp (?P @ ?D) (numerical_columns data)
          = Inr (map (\<lambda>c. if is_numerical (vals c) then scale_col fp c else c) (?P @ ?D))"
    unfolding numerical_columns_passthrough[where fp = fp]
    by (rule scale_unambiguous[OF dist dnum clash])
  have sD: "map (\<lambda>c. if is_numerical (vals c) then scale_col fp c else c) ?D = ?D"
  proof (rule map_idI)
    fix d assume "d \<in> set ?D"
    with dnum have "\<not> is_numerical (vals d)" by blast
    then show "(if is_numerical (vals d) then scale_col fp d else d) = d" by simp
  qed
  have sP: "map (\<lambda>c. if is_numerical (vals c) then scale_col fp c else c) ?P
               = map (\<lambda>c. if is_numerical (vals c) then scale_col fp (impute_numerical fp c) else c)
                     (filter (\<lambda>c. \<not> is_object (vals c)) data)"
    by (simp add: comp_def cong: if_cong)
  have s: "scale fp (?P @ ?D) (numerical_columns data)
     = Inr (map (\<lambda>c. if is_numerical (vals c) then scale_col fp (impute_numerical fp c) else c)
                     (filter (\<lambda>c. \<not> is_object (vals c)) data) @ ?D)"
    unfolding s0 map_append sD sP ..
  show ?thesis
    using m by (simp add: preprocess_data_def Let_def get_dummies_imputed s del: map_map map_append)
qed

lemma preprocess_returns:
  "snd (preprocess_data fp data) = Inr r \<Longrightarrow> \<not> mode_empty data"
  by (auto simp: preprocess_data_def Let_def split: if_splits)

section \<open>The example tables, evaluated\<close>

lemmas preprocess_eval =
  preprocess_data_def mode_empty_def impute_categorical_def impute_numerical_def
  mode_def present_def obj_cells_def Let_def numerical_columns_def get_dummies_def
  get_dummies_1d_def levels_def scale_def setitem_array_def getitem_cols_def getitem_def
  rename_def scale_col_def mean_def std_def fl_sub_def fillna_def categorical_columns_def
  exact_def count_notna_def zero_filled_def

lemmas table_eval =
  people_def clash_def constant_column_def all_missing_def no_category_def
  labels_unambiguous_def indicator_names_def rectangular_def scalable_def bool_cells_def

lemma people_preprocessed:
  "snd (preprocess_data exact people)
   = Inr [\<lparr>name = ''age'', vals = FloatData [Fin (-1), Fin 0, Fin 1]\<rparr>,
          \<lparr>name = ''cityLA'', vals = BoolData [False, False, True]\<rparr>,
          \<lparr>name = ''cityNY'', vals = BoolData [True, True, False]\<rparr>]"
  by (simp add: people_def preprocess_eval)

lemma people_unambiguous: "labels_unambiguous people"
  by (simp add: table_eval numerical_columns_def levels_def present_def obj_cells_def)

lemma constant_preprocessed:
  "snd (preprocess_data exact constant_column)
   = Inr [\<lparr>name = ''x'', vals = FloatData [NaN, NaN]\<rparr>,
          \<lparr>name = ''ca'', vals = BoolData [True, False]\<rparr>,
          \<lparr>name = ''cb'', vals = BoolData [False, True]\<rparr>]"
  by (simp add: constant_column_def preprocess_eval)

lemma constant_unambiguous: "labels_unambiguous constant_column"
  by (simp add: table_eval numerical_columns_def levels_def present_def obj_cells_def)

lemma all_missing_preprocessed:
  "snd (preprocess_data exact all_missing)
   = Inr [\<lparr>name = ''x'', vals = FloatData [NaN, NaN]\<rparr>,
          \<lparr>name = ''ca'', vals = BoolData [True, False]\<rparr>,
          \<lparr>name = ''cb'', vals = BoolData [False, True]\<rparr>]"
  by (simp add: all_missing_def preprocess_eval)

lemma no_category_preprocessed:
  "snd (preprocess_data exact no_category)
   = Inr [\<lparr>name = ''c2a'', vals = BoolData [True, False]\<rparr>,
          \<lparr>name = ''c2b'', vals = BoolData [False, True]\<rparr>]"
  by (simp add: no_category_def preprocess_eval)

lemma clash_encoded:
  "get_dummies clash [False, True]
   = [\<lparr>name = ''a_b'', vals = IntData [0, 0, 0, 2]\<rparr>,
      \<lparr>name = ''a_b'', vals = BoolData [True, False, False, False]\<rparr>,
      \<lparr>name = ''a_c'', vals = BoolData [False, True, True, True]\<rparr>]"
  by (simp add: clash_def get_dummies_def get_dummies_1d_def levels_def present_def obj_cells_def)

lemma clash_scaled:
  "scale exact [\<lparr>name = ''a_b'', vals = IntData [0, 0, 0, 2]\<rparr>,
      \<lparr>name = ''a_b'', vals = BoolData [True, False, False, False]\<rparr>,
      \<lparr>name = ''a_c'', vals = BoolData [False, True, True, True]\<rparr>] [''a_b'']
   = Inr [\<lparr>name = ''a_b'', vals = FloatData [Fin (-1/2), Fin (-1/2), Fin (-1/2), Fin (3/2)]\<rparr>,
          \<lparr>name = ''a_b'', vals = FloatData [Fin (3/2), Fin (-1/2), Fin (-1/2), Fin (-1/2)]\<rparr>,
          \<lparr>name = ''a_c'', vals = BoolData [False, True, True, True]\<rparr>]"
  by (simp add: scale_def setitem_array_def getitem_cols_def getitem_def
      scale_col_def mean_def std_def fl_sub_def Let_def real_sqrt_divide
      exact_def count_notna_def zero_filled_def)

lemma clash_preprocessed:
  "snd (preprocess_data exact clash)
   = Inr [\<lparr>name = ''ab'', vals = FloatData [Fin (-1/2), Fin (-1/2), Fin (-1/2), Fin (3/2)]\<rparr>,
          \<lparr>name = ''ab'', vals = FloatData [Fin (3/2), Fin (-1/2), Fin (-1/2), Fin (-1/2)]\<rparr>,
          \<lparr>name = ''ac'', vals = BoolData [False, True, True, True]\<rparr>]"
proof -
  have i: "map impute_categorical (map (impute_numerical exact) clash) = clash"
    by (simp add: clash_def impute_categorical_def impute_numerical_def mode_def present_def)
  have m: "\<not> mode_empty (map (impute_numerical exact) clash)"
    by (simp add: clash_def mode_empty_def impute_numerical_def mode_def present_def obj_cells_def)
  have k: "numerical_columns clash = [''a_b'']"
    by (simp add: clash_def numerical_columns_def)
  have l: "categorical_columns clash = [False, True]"
    by (simp add: clash_def categorical_columns_def)
  show ?thesis
    unfolding preprocess_data_def Let_def i k l clash_encoded clash_scaled using m
    by (simp add: rename_def)
qed

section \<open>Which columns are scaled\<close>

lemma vals_rename [simp]: "vals (rename c) = vals c"
  by (simp add: rename_def)

lemma vals_scale_col:
  "vals (scale_col fp c)
     = FloatData (map (\<lambda>x. fl_div (rnd fp) (fl_sub (rnd fp) x (mean fp (to_float fp (vals c))))
                                (std fp (to_float fp (vals c))))
                      (to_float fp (vals c)))"
  by (simp add: scale_col_def Let_def)

text \<open>
  Where no label of \<open>numerical_columns\<close> is borne by a second column of the encoded
  table, the call returns the columns that are not of object dtype, the int64 and
  float64 ones among them scaled, followed by the indicator columns as the encoding
  produced them.
\<close>

lemma scaling_without_label_clash:
  assumes "labels_unambiguous data" and "\<not> mode_empty data"
  shows "\<exists>nums inds.
           snd (preprocess_data fp data) = Inr (nums @ inds)
           \<and> length nums = length (filter (\<lambda>c. \<not> is_object (vals c)) data)
           \<and> (\<forall>j < length nums.
                 vals (nums ! j)
                   = (let c = filter (\<lambda>c. \<not> is_object (vals c)) data ! j;
                          xs = to_float fp (vals (impute_numerical fp c))
                      in if is_numerical (vals c)
                         then FloatData (map (\<lambda>x. fl_div (rnd fp) (fl_sub (rnd fp) x (mean fp xs))
                                                      (std fp xs)) xs)
                         else vals c))
           \<and> inds = map rename (concat (map get_dummies_1d
                       (map impute_categorical (filter (\<lambda>c. is_object (vals c)) data))))
           \<and> (\<forall>d \<in> set inds. vals d = BoolData (bool_cells d))"
proof -
  let ?P = "filter (\<lambda>c. \<not> is_object (vals c)) data"
  let ?D = "concat (map get_dummies_1d (map impute_categorical (filter (\<lambda>c. is_object (vals c)) data)))"
  let ?f = "\<lambda>c. if is_numerical (vals c) then scale_col fp (impute_numerical fp c) else c"
  have "snd (preprocess_data fp data) = Inr (map rename (map ?f ?P @ ?D))"
    by (rule preprocess_normal_form[OF assms])
  then have r: "snd (preprocess_data fp data) = Inr (map rename (map ?f ?P) @ map rename ?D)"
    by (simp only: map_append)
  have n: "vals (map rename (map ?f ?P) ! j)
          = (let c = ?P ! j; xs = to_float fp (vals (impute_numerical fp c))
             in if is_numerical (vals c)
                then FloatData (map (\<lambda>x. fl_div (rnd fp) (fl_sub (rnd fp) x (mean fp xs))
                                             (std fp xs)) xs)
                else vals c)" if "j < length ?P" for j
  proof -
    have "map rename (map ?f ?P) ! j = rename (?f (?P ! j))"
      using that by simp
    then show ?thesis
      by (simp add: Let_def vals_scale_col)
  qed
  have b: "vals d = BoolData (bool_cells d)" if "d \<in> set (map rename ?D)" for d
  proof -
    from that obtain e where e: "e \<in> set ?D" and d: "d = rename e" by auto
    from dummies_not_numerical[OF e] show ?thesis
      by (simp add: d bool_cells_def)
  qed
  show ?thesis
  proof (intro exI conjI)
    show "snd (preprocess_data fp data) = Inr (map rename (map ?f ?P) @ map rename ?D)"
      by (rule r)
    show "length (map rename (map ?f ?P)) = length ?P" by simp
    show "\<forall>j < length (map rename (map ?f ?P)).
            vals (map rename (map ?f ?P) ! j)
            = (let c = ?P ! j; xs = to_float fp (vals (impute_numerical fp c))
               in if is_numerical (vals c)
                  then FloatData (map (\<lambda>x. fl_div (rnd fp) (fl_sub (rnd fp) x (mean fp xs))
                                               (std fp xs)) xs)
                  else vals c)"
      using n by simp
    show "map rename ?D = map rename ?D" ..
    show "\<forall>d \<in> set (map rename ?D). vals d = BoolData (bool_cells d)"
      using b by blast
  qed
qed

text \<open>
  C7: the code does not do what the claim says, nor what its own line 72 selects.
  Scaling is meant for the int64 and float64 columns of the table as it is passed in,
  but line 89 looks their labels up in the encoded table. In the table \<open>clash\<close> the
  label \<open>a_b\<close> of the int64 column is also the name of the indicator column of the value
  \<open>b\<close> of column \<open>a\<close>: both are selected, and the indicator comes back scaled, with the
  values 3/2 and -1/2 in the place of its flags. Every intermediate result of this
  computation is a float64 value, so float64 arithmetic gives the same table.
\<close>

theorem indicator_scaled_on_label_clash:
  "numerical_columns clash = [''a_b'']
   \<and> get_dummies clash [False, True]
     = [\<lparr>name = ''a_b'', vals = IntData [0, 0, 0, 2]\<rparr>,
        \<lparr>name = ''a_b'', vals = BoolData [True, False, False, False]\<rparr>,
        \<lparr>name = ''a_c'', vals = BoolData [False, True, True, True]\<rparr>]
   \<and> snd (preprocess_data exact clash)
     = Inr [\<lparr>name = ''ab'', vals = FloatData [Fin (-1/2), Fin (-1/2), Fin (-1/2), Fin (3/2)]\<rparr>,
            \<lparr>name = ''ab'', vals = FloatData [Fin (3/2), Fin (-1/2), Fin (-1/2), Fin (-1/2)]\<rparr>,
            \<lparr>name = ''ac'', vals = BoolData [False, True, True, True]\<rparr>]"
proof (intro conjI)
  show "numerical_columns clash = [''a_b'']"
    by (simp add: clash_def numerical_columns_def)
qed (rule clash_encoded, rule clash_preprocessed)

section \<open>Columns that can be scaled\<close>

lemma fillna_complete: "NaN \<in> set xs \<longrightarrow> v \<noteq> NaN \<Longrightarrow> NaN \<notin> set (fillna xs v)"
  by (auto simp: fillna_def)

lemma to_float_imputed:
  assumes "\<forall>x. rnd fp x \<noteq> NaN" and "is_numerical (vals c)"
  shows "to_float fp (vals (impute_numerical fp c))
           = fillna (to_float fp (vals c)) (mean fp (to_float fp (vals c)))"
proof (cases "vals c")
  case (FloatData xs)
  then show ?thesis by (simp add: impute_numerical_def)
next
  case (IntData is')
  have "NaN \<notin> set (map (\<lambda>i. rnd fp (real_of_int i)) is')"
    using assms(1) by (metis (no_types, lifting) imageE set_map)
  then have "fillna (map (\<lambda>i. rnd fp (real_of_int i)) is') v = map (\<lambda>i. rnd fp (real_of_int i)) is'"
    for v by (rule fillna_no_missing)
  with IntData show ?thesis by (simp add: impute_numerical_def)
qed (use assms in simp_all)

lemma fl_sub_Fin_not_NaN:
  "\<forall>x. r x \<noteq> NaN \<Longrightarrow> x \<noteq> NaN \<Longrightarrow> fl_sub r x (Fin m) \<noteq> NaN"
  by (cases x) (simp_all add: fl_sub_def)

lemma fl_div_Fin_not_NaN:
  "\<forall>x. r x \<noteq> NaN \<Longrightarrow> x \<noteq> NaN \<Longrightarrow> s \<noteq> 0 \<Longrightarrow> fl_div r x (Fin s) \<noteq> NaN"
  by (cases x) simp_all

lemma scaled_no_NaN:
  assumes "\<forall>x. r x \<noteq> NaN" and "NaN \<notin> set ys" and "s \<noteq> 0"
  shows "NaN \<notin> set (map (\<lambda>x. fl_div r (fl_sub r x (Fin m)) (Fin s)) ys)"
proof
  assume "NaN \<in> set (map (\<lambda>x. fl_div r (fl_sub r x (Fin m)) (Fin s)) ys)"
  then obtain x where x: "x \<in> set ys" and n: "fl_div r (fl_sub r x (Fin m)) (Fin s) = NaN"
    by (auto simp: image_iff)
  from x assms(2) have "x \<noteq> NaN" by auto
  from fl_div_Fin_not_NaN[OF assms(1) fl_sub_Fin_not_NaN[OF assms(1) this] assms(3)] n
  show False by simp
qed

lemma scaled_scalable_no_missing:
  assumes f: "\<forall>x. rnd fp x \<noteq> NaN" and n: "is_numerical (vals c)"
    and s: "scalable fp (to_float fp (vals c))"
  shows "None \<notin> set (cells (vals (scale_col fp (impute_numerical fp c))))"
proof -
  let ?xs = "to_float fp (vals c)"
  let ?ys = "to_float fp (vals (impute_numerical fp c))"
  have ys: "?ys = fillna ?xs (mean fp ?xs)"
    by (rule to_float_imputed[OF f n])
  from s have "NaN \<in> set ?xs \<longrightarrow> mean fp ?xs \<noteq> NaN"
    by (simp add: scalable_def)
  then have c: "NaN \<notin> set ?ys"
    unfolding ys by (rule fillna_complete)
  from s obtain m where m: "mean fp ?ys = Fin m"
    unfolding ys by (auto simp: scalable_def split: fl.splits)
  from s obtain d where d: "std fp ?ys = Fin d" "d \<noteq> 0"
    unfolding ys by (auto simp: scalable_def split: fl.splits)
  from scaled_no_NaN[OF f c d(2)]
  have "NaN \<notin> set (map (\<lambda>x. fl_div (rnd fp) (fl_sub (rnd fp) x (Fin m)) (Fin d)) ?ys)" .
  then show ?thesis
    unfolding vals_scale_col m d(1) by (auto simp: image_iff)
qed

lemma cells_rename [simp]: "cells (vals (rename c)) = cells (vals c)"
  by simp

lemma bool_no_missing: "vals d = BoolData bs \<Longrightarrow> None \<notin> set (cells (vals d))"
  by auto

lemma other_no_missing:
  "\<not> is_object (vals c) \<Longrightarrow> \<not> is_numerical (vals c) \<Longrightarrow> None \<notin> set (cells (vals c))"
  by (cases "vals c") auto

text \<open>
  C2 as stated fails: a float64 column without any value has no mean, nothing is filled,
  and the column comes back as NaN.
\<close>

theorem all_missing_counterexample:
  "snd (preprocess_data exact all_missing)
     = Inr [\<lparr>name = ''x'', vals = FloatData [NaN, NaN]\<rparr>,
            \<lparr>name = ''ca'', vals = BoolData [True, False]\<rparr>,
            \<lparr>name = ''cb'', vals = BoolData [False, True]\<rparr>]
   \<and> cells (FloatData [NaN, NaN]) = [None, None]"
  using all_missing_preprocessed by simp

text \<open>
  C2, amended: when \<open>preprocess_data\<close> returns a table, the labels are unambiguous, and
  every int64 or float64 column of the argument is \<open>scalable\<close> (a column with a missing
  cell has a float mean other than NaN, and after the fill its float mean is finite and
  its float standard deviation is finite and not zero), no column of the returned table
  contains a missing marker. This holds for every float arithmetic in which the
  rounding of a real number is never NaN.
\<close>

theorem no_missing_when_scalable:
  assumes u: "labels_unambiguous data"
    and r: "snd (preprocess_data fp data) = Inr r"
    and f: "\<forall>x. rnd fp x \<noteq> NaN"
    and s: "\<forall>c \<in> set data. is_numerical (vals c) \<longrightarrow> scalable fp (to_float fp (vals c))"
  shows "\<forall>d \<in> set r. None \<notin> set (cells (vals d))"
proof
  fix d assume d: "d \<in> set r"
  let ?P = "filter (\<lambda>c. \<not> is_object (vals c)) data"
  let ?D = "concat (map get_dummies_1d (map impute_categorical (filter (\<lambda>c. is_object (vals c)) data)))"
  let ?f = "\<lambda>c. if is_numerical (vals c) then scale_col fp (impute_numerical fp c) else c"
  have "snd (preprocess_data fp data) = Inr (map rename (map ?f ?P @ ?D))"
    by (rule preprocess_normal_form[OF u preprocess_returns[OF r]])
  with r have "r = map rename (map ?f ?P @ ?D)"
    by (simp only: sum.inject)
  with d have "d \<in> rename ` set (map ?f ?P @ ?D)"
    by (simp only: set_map)
  then obtain e where e0: "e \<in> set (map ?f ?P @ ?D)" and de: "d = rename e"
    by blast
  from e0 have e: "e \<in> set (map ?f ?P) \<or> e \<in> set ?D"
    by (simp only: set_append Un_iff)
  from e have "None \<notin> set (cells (vals e))"
  proof
    assume "e \<in> set (map ?f ?P)"
    then have "e \<in> ?f ` set ?P"
      by (simp only: set_map)
    then obtain c where c0: "c \<in> set ?P" and ec: "e = ?f c"
      by blast
    from c0 have c: "c \<in> set data" "\<not> is_object (vals c)"
      by simp_all
    show ?thesis
    proof (cases "is_numerical (vals c)")
      case True
      with s c(1) have "scalable fp (to_float fp (vals c))" by blast
      from scaled_scalable_no_missing[OF f True this] show ?thesis
        using True ec by simp
    next
      case False
      with other_no_missing[OF c(2)] ec show ?thesis by simp
    qed
  next
    assume "e \<in> set ?D"
    from dummies_not_numerical[OF this] show ?thesis
      by (rule bool_no_missing)
  qed
  then show "None \<notin> set (cells (vals d))"
    by (simp add: de)
qed

theorem no_missing_when_scalable_witness:
  "labels_unambiguous people
   \<and> snd (preprocess_data exact people)
       = Inr [\<lparr>name = ''age'', vals = FloatData [Fin (-1), Fin 0, Fin 1]\<rparr>,
              \<lparr>name = ''cityLA'', vals = BoolData [False, False, True]\<rparr>,
              \<lparr>name = ''cityNY'', vals = BoolData [True, True, False]\<rparr>]
   \<and> (\<forall>x. rnd exact x \<noteq> NaN)
   \<and> scalable exact [Fin 25, NaN, Fin 35]
   \<and> mean exact [Fin 25, NaN, Fin 35] = Fin 30
   \<and> std exact [Fin 25, Fin 30, Fin 35] = Fin 5
   \<and> None \<notin> set (cells (FloatData [Fin (-1), Fin 0, Fin 1]))
   \<and> None \<notin> set (cells (BoolData [False, False, True]))
   \<and> None \<notin> set (cells (BoolData [True, True, False]))"
proof -
  have f: "\<forall>x. rnd exact x \<noteq> NaN"
    by (simp add: exact_def)
  have m: "mean exact [Fin 25, NaN, Fin 35] = Fin 30"
    by (simp add: mean_def exact_def count_notna_def zero_filled_def)
  have d: "std exact [Fin 25, Fin 30, Fin 35] = Fin 5"
    by (simp add: std_def exact_def count_notna_def zero_filled_def fl_sub_def Let_def)
  have a: "scalable exact [Fin 25, NaN, Fin 35]"
    unfolding scalable_def m by (simp add: fillna_def d)
      (simp add: mean_def exact_def count_notna_def zero_filled_def)
  have s: "\<forall>c \<in> set people. is_numerical (vals c) \<longrightarrow> scalable exact (to_float exact (vals c))"
    using a by (simp add: people_def)
  from no_missing_when_scalable[OF people_unambiguous people_preprocessed f s]
  have "None \<notin> set (cells (FloatData [Fin (-1), Fin 0, Fin 1]))
      \<and> None \<notin> set (cells (BoolData [False, False, True]))
      \<and> None \<notin> set (cells (BoolData [True, True, False]))"
    by simp
  with people_unambiguous people_preprocessed f a m d show ?thesis
    by (intro conjI) simp_all
qed

section \<open>Columns with a standard deviation of zero\<close>

lemma length_to_float [simp]: "length (to_float fp d) = nrows d"
  by (cases d) simp_all

lemma nrows_impute_numerical [simp]: "nrows (vals (impute_numerical fp c)) = nrows (vals c)"
  by (cases "vals c") (simp_all add: impute_numerical_def fillna_def)

lemma fl_div_zero: "fl_div r x (Fin 0) = NaN \<or> fl_div r x (Fin 0) = PInf \<or> fl_div r x (Fin 0) = NInf"
  by (cases x) simp_all

lemma fl_div_NaN [simp]: "fl_div r x NaN = NaN"
  by (cases x) simp_all

lemma scaled_zero_std:
  assumes "s = Fin 0 \<or> s = NaN"
  shows "\<forall>y \<in> set (map (\<lambda>x. fl_div r (fl_sub r x m) s) xs). y = NaN \<or> y = PInf \<or> y = NInf"
  using assms fl_div_zero[of r] by auto

text \<open>
  C3 as stated fails: a constant int64 column raises nothing; the call returns a table
  in which the column is NaN.
\<close>

theorem zero_variance_counterexample:
  "is_numerical (IntData [5, 5])
   \<and> snd (preprocess_data exact constant_column)
     = Inr [\<lparr>name = ''x'', vals = FloatData [NaN, NaN]\<rparr>,
            \<lparr>name = ''ca'', vals = BoolData [True, False]\<rparr>,
            \<lparr>name = ''cb'', vals = BoolData [False, True]\<rparr>]"
  using constant_preprocessed by simp

text \<open>
  C3, amended: \<open>preprocess_data\<close> has no ZeroVariance condition. When the labels are
  unambiguous and an object column has a value, the call returns a table, whatever the
  values of the other columns; and an int64 or float64 column whose float standard
  deviation after the fill is zero or NaN is returned, under its name without
  underscores and at its place among the columns that are not of object dtype, as a
  float64 column of the same length in which every cell is NaN or an infinity.
\<close>

theorem zero_std_column_not_finite:
  assumes u: "labels_unambiguous data"
    and m: "\<not> mode_empty data"
    and j: "j < length (filter (\<lambda>c. \<not> is_object (vals c)) data)"
    and c: "c = filter (\<lambda>c. \<not> is_object (vals c)) data ! j"
    and n: "is_numerical (vals c)"
    and k: "std fp (to_float fp (vals (impute_numerical fp c))) = Fin 0
            \<or> std fp (to_float fp (vals (impute_numerical fp c))) = NaN"
  shows "\<exists>r ys. snd (preprocess_data fp data) = Inr r
           \<and> j < length r
           \<and> r ! j = \<lparr>name = filter (\<lambda>ch. ch \<noteq> CHR ''_'') (name c), vals = FloatData ys\<rparr>
           \<and> length ys = nrows (vals c)
           \<and> (\<forall>y \<in> set ys. y = NaN \<or> y = PInf \<or> y = NInf)"
proof -
  let ?P = "filter (\<lambda>c. \<not> is_object (vals c)) data"
  let ?D = "concat (map get_dummies_1d (map impute_categorical (filter (\<lambda>c. is_object (vals c)) data)))"
  let ?f = "\<lambda>c. if is_numerical (vals c) then scale_col fp (impute_numerical fp c) else c"
  let ?r = "map rename (map ?f ?P @ ?D)"
  let ?xs = "to_float fp (vals (impute_numerical fp c))"
  let ?ys = "map (\<lambda>x. fl_div (rnd fp) (fl_sub (rnd fp) x (mean fp ?xs)) (std fp ?xs)) ?xs"
  have r: "snd (preprocess_data fp data) = Inr ?r"
    by (rule preprocess_normal_form[OF u m])
  have l: "j < length ?r"
    using j by simp
  have "?r ! j = rename (?f (?P ! j))"
    using j by (simp add: nth_append)
  also have "\<dots> = rename (scale_col fp (impute_numerical fp c))"
    using n c by simp
  also have "\<dots> = \<lparr>name = filter (\<lambda>ch. ch \<noteq> CHR ''_'') (name c), vals = FloatData ?ys\<rparr>"
    by (simp add: rename_def scale_col_def Let_def)
  finally have e: "?r ! j = \<lparr>name = filter (\<lambda>ch. ch \<noteq> CHR ''_'') (name c), vals = FloatData ?ys\<rparr>" .
  have len: "length ?ys = nrows (vals c)"
    by simp
  have "\<forall>y \<in> set ?ys. y = NaN \<or> y = PInf \<or> y = NInf"
    by (rule scaled_zero_std[OF k])
  with r l e len show ?thesis
    by blast
qed

theorem zero_std_column_not_finite_witness:
  "labels_unambiguous constant_column
   \<and> \<not> mode_empty constant_column
   \<and> 0 < length (filter (\<lambda>c. \<not> is_object (vals c)) constant_column)
   \<and> is_numerical (IntData [5, 5])
   \<and> std exact (to_float exact (vals (impute_numerical exact \<lparr>name = ''x'', vals = IntData [5, 5]\<rparr>)))
       = Fin 0
   \<and> (\<exists>r ys. snd (preprocess_data exact constant_column) = Inr r
          \<and> r ! 0 = \<lparr>name = ''x'', vals = FloatData ys\<rparr>
          \<and> length ys = 2
          \<and> list_all (\<lambda>y. y = NaN \<or> y = PInf \<or> y = NInf) ys)"
proof -
  let ?c = "\<lparr>name = ''x'', vals = IntData [5, 5]\<rparr>"
  have m: "\<not> mode_empty constant_column"
    by (simp add: constant_column_def mode_empty_def mode_def present_def obj_cells_def)
  have j: "0 < length (filter (\<lambda>c. \<not> is_object (vals c)) constant_column)"
    by (simp add: constant_column_def)
  have c: "?c = filter (\<lambda>c. \<not> is_object (vals c)) constant_column ! 0"
    by (simp add: constant_column_def)
  have n: "is_numerical (vals ?c)" by simp
  have s: "std exact (to_float exact (vals (impute_numerical exact ?c))) = Fin 0"
    by (simp add: impute_numerical_def std_def exact_def count_notna_def zero_filled_def
        fl_sub_def Let_def)
  from zero_std_column_not_finite[OF constant_unambiguous m j c n disjI1[OF s]]
  obtain r ys where "snd (preprocess_data exact constant_column) = Inr r"
    and "r ! 0 = \<lparr>name = ''x'', vals = FloatData ys\<rparr>"
    and "length ys = 2"
    and "\<forall>y \<in> set ys. y = NaN \<or> y = PInf \<or> y = NInf"
    by auto
  then have "\<exists>r ys. snd (preprocess_data exact constant_column) = Inr r
          \<and> r ! 0 = \<lparr>name = ''x'', vals = FloatData ys\<rparr>
          \<and> length ys = 2
          \<and> list_all (\<lambda>y. y = NaN \<or> y = PInf \<or> y = NInf) ys"
    unfolding list_all_iff by blast
  with constant_unambiguous m j s show ?thesis
    by (intro conjI) simp_all
qed

section \<open>The indicator columns\<close>

lemma set_levels: "set (levels vs) = {w. Some w \<in> set vs}"
  by (simp add: levels_def set_present)

lemma distinct_levels: "distinct (levels vs)"
  by (simp add: levels_def)

lemma length_levels: "length (levels vs) = card {w. Some w \<in> set vs}"
proof -
  have "length (levels vs) = card (set (levels vs))"
    using distinct_levels by (simp add: distinct_card)
  then show ?thesis by (simp only: set_levels)
qed

lemma bool_cells_rename [simp]: "bool_cells (rename d) = bool_cells d"
  by (simp add: bool_cells_def)

lemma length_obj_cells: "is_object (vals c) \<Longrightarrow> length (obj_cells c) = nrows (vals c)"
  by (cases "vals c") (simp_all add: obj_cells_def)

lemma nrows_impute_categorical [simp]: "nrows (vals (impute_categorical c)) = nrows (vals c)"
  by (cases "vals c") (simp_all add: impute_categorical_def split: list.splits)

lemma imputed_cells_present:
  assumes "Some v \<in> set (obj_cells c)" and "i < length (obj_cells c)"
  shows "\<exists>w. obj_cells (impute_categorical c) ! i = Some w"
proof (cases "vals c")
  case (ObjData vs)
  with assms have v: "Some v \<in> set vs" and i: "i < length vs"
    by (simp_all add: obj_cells_def)
  from mode_nonempty[OF v] obtain m ms where "mode vs = m # ms"
    by (cases "mode vs") auto
  with ObjData i show ?thesis
    by (cases "vs ! i") (simp_all add: impute_categorical_def obj_cells_def)
qed (use assms in \<open>simp_all add: obj_cells_def\<close>)

lemma one_hot_row:
  assumes "i < length (obj_cells c)" and "obj_cells c ! i = Some w"
  shows "length (filter (\<lambda>d. bool_cells d ! i) (get_dummies_1d c)) = 1"
proof -
  let ?ls = "levels (obj_cells c)"
  have w: "w \<in> set ?ls"
    using assms by (auto simp: set_levels dest: nth_mem)
  have "length (filter (\<lambda>d. bool_cells d ! i) (get_dummies_1d c))
          = length (filter (\<lambda>l. obj_cells c ! i = Some l) ?ls)"
    using assms(1) by (simp add: get_dummies_1d_def filter_map comp_def bool_cells_def)
  also have "(\<lambda>l. obj_cells c ! i = Some l) = (\<lambda>l. id l = id w)"
    using assms(2) by auto
  also have "filter (\<lambda>l. id l = id w) ?ls = [w]"
    by (rule filter_same_key) (use w distinct_levels in simp_all)
  finally show ?thesis by simp
qed

lemma length_obj_cells_imputed:
  assumes "is_object (vals c)" and "Some w \<in> set (obj_cells (impute_categorical c))"
  shows "length (obj_cells (impute_categorical c)) = nrows (vals c)"
proof (cases "vals c")
  case (ObjData vs)
  show ?thesis
  proof (cases "mode vs")
    case Nil
    with ObjData assms(2) show ?thesis
      by (simp add: impute_categorical_def obj_cells_def)
  next
    case (Cons m ms)
    with ObjData show ?thesis
      by (simp add: impute_categorical_def obj_cells_def)
  qed
qed (use assms in simp_all)

text \<open>The indicator columns of one object column of the argument.\<close>

lemma indicator_block:
  assumes o: "is_object (vals c)" and n: "nrows (vals c) = n"
  defines "ind \<equiv> map rename (get_dummies_1d (impute_categorical c))"
  shows "length ind = card {w. Some w \<in> set (obj_cells c)}"
    and "\<forall>d \<in> set ind. vals d = BoolData (bool_cells d) \<and> nrows (vals d) = n"
    and "(\<exists>w. Some w \<in> set (obj_cells c))
           \<longrightarrow> (\<forall>i < n. length (filter (\<lambda>d. bool_cells d ! i) ind) = 1)"
proof -
  let ?c = "impute_categorical c"
  have len: "length (obj_cells ?c) = n" if "Some w \<in> set (obj_cells c)" for w
  proof -
    from that have "w \<in> {w. Some w \<in> set (obj_cells ?c)}"
      by (simp only: values_impute_categorical) simp
    then have "Some w \<in> set (obj_cells ?c)" by simp
    from length_obj_cells_imputed[OF o this] n show ?thesis by simp
  qed
  have len': "length (obj_cells c) = n"
    using o n by (simp add: length_obj_cells)
  show "length ind = card {w. Some w \<in> set (obj_cells c)}"
    by (simp add: ind_def get_dummies_1d_def length_levels values_impute_categorical)
  show "\<forall>d \<in> set ind. vals d = BoolData (bool_cells d) \<and> nrows (vals d) = n"
  proof
    fix d assume "d \<in> set ind"
    then obtain l where l: "l \<in> set (levels (obj_cells ?c))"
      and d: "d = rename \<lparr>name = name ?c @ ''_'' @ l,
                            vals = BoolData (map (\<lambda>v. v = Some l) (obj_cells ?c))\<rparr>"
      unfolding ind_def get_dummies_1d_def by auto
    from l have "l \<in> {w. Some w \<in> set (obj_cells c)}"
      by (simp only: set_levels values_impute_categorical)
    then have "Some l \<in> set (obj_cells c)" by simp
    from len[OF this] show "vals d = BoolData (bool_cells d) \<and> nrows (vals d) = n"
      by (simp add: d bool_cells_def)
  qed
  show "(\<exists>w. Some w \<in> set (obj_cells c))
           \<longrightarrow> (\<forall>i < n. length (filter (\<lambda>d. bool_cells d ! i) ind) = 1)"
  proof (intro impI allI)
    fix i assume "\<exists>w. Some w \<in> set (obj_cells c)" and i: "i < n"
    then obtain v where v: "Some v \<in> set (obj_cells c)" by blast
    from imputed_cells_present[OF v] i len' obtain w where w: "obj_cells ?c ! i = Some w"
      by auto
    from i len[OF v] have "i < length (obj_cells ?c)" by simp
    from one_hot_row[OF this w]
    have "length (filter (\<lambda>d. bool_cells d ! i) (get_dummies_1d ?c)) = 1" .
    then show "length (filter (\<lambda>d. bool_cells d ! i) ind) = 1"
      by (simp add: ind_def filter_map comp_def)
  qed
qed

lemma nrows_scale_col [simp]: "nrows (vals (scale_col fp c)) = nrows (vals c)"
  by (simp add: vals_scale_col)

text \<open>
  C4 as stated fails: an object column without any value gets no indicator column, so
  its indicators do not sum to 1 in any row.
\<close>

theorem all_missing_category_counterexample:
  "is_object (ObjData [None, None])
   \<and> snd (preprocess_data exact no_category)
     = Inr [\<lparr>name = ''c2a'', vals = BoolData [True, False]\<rparr>,
            \<lparr>name = ''c2b'', vals = BoolData [False, True]\<rparr>]
   \<and> filter (\<lambda>d. take 2 (name d) = ''c1'')
        [\<lparr>name = ''c2a'', vals = BoolData [True, False]\<rparr>,
         \<lparr>name = ''c2b'', vals = BoolData [False, True]\<rparr>] = []"
  using no_category_preprocessed by simp

text \<open>
  C4, amended: when \<open>preprocess_data\<close> returns a table for an argument with \<open>n\<close> rows and
  unambiguous labels, the table consists of the columns that are not of object dtype,
  under their names without underscores, followed by one block of indicator columns
  per object column: as many bool columns as the column has distinct non-missing
  values, and, when it has at least one, exactly one of them true in every row. The
  number of columns is the number of columns not of object dtype plus the sum of those
  cardinalities, and every column has \<open>n\<close> rows.
\<close>

theorem one_hot_encoding:
  assumes u: "labels_unambiguous data"
    and rect: "rectangular data n"
    and r: "snd (preprocess_data fp data) = Inr r"
  shows "\<exists>nums inds.
           r = nums @ concat inds
           \<and> map name nums
               = map (filter (\<lambda>ch. ch \<noteq> CHR ''_''))
                     (map name (filter (\<lambda>c. \<not> is_object (vals c)) data))
           \<and> list_all2
                (\<lambda>c ind.
                   length ind = card {w. Some w \<in> set (obj_cells c)}
                   \<and> (\<forall>d \<in> set ind. vals d = BoolData (bool_cells d))
                   \<and> ((\<exists>w. Some w \<in> set (obj_cells c))
                        \<longrightarrow> (\<forall>i < n. length (filter (\<lambda>d. bool_cells d ! i) ind) = 1)))
                (filter (\<lambda>c. is_object (vals c)) data) inds
           \<and> length r
               = length (filter (\<lambda>c. \<not> is_object (vals c)) data)
                 + sum_list (map (\<lambda>c. card {w. Some w \<in> set (obj_cells c)})
                                 (filter (\<lambda>c. is_object (vals c)) data))
           \<and> (\<forall>d \<in> set r. nrows (vals d) = n)"
proof -
  let ?P = "filter (\<lambda>c. \<not> is_object (vals c)) data"
  let ?O = "filter (\<lambda>c. is_object (vals c)) data"
  let ?D = "concat (map get_dummies_1d (map impute_categorical ?O))"
  let ?f = "\<lambda>c. if is_numerical (vals c) then scale_col fp (impute_numerical fp c) else c"
  let ?g = "\<lambda>c. map rename (get_dummies_1d (impute_categorical c))"
  let ?nums = "map rename (map ?f ?P)"
  let ?inds = "map ?g ?O"
  have rows: "nrows (vals c) = n" if "c \<in> set data" for c
    using rect that by (simp add: rectangular_def list_all_iff)
  have "snd (preprocess_data fp data) = Inr (map rename (map ?f ?P @ ?D))"
    by (rule preprocess_normal_form[OF u preprocess_returns[OF r]])
  with r have "r = map rename (map ?f ?P @ ?D)"
    by (simp only: sum.inject)
  also have "\<dots> = ?nums @ map rename ?D"
    by (simp only: map_append)
  also have "map rename ?D = concat ?inds"
    by (simp only: map_concat map_map comp_def)
  finally have split: "r = ?nums @ concat ?inds" .
  have names: "map name ?nums = map (filter (\<lambda>ch. ch \<noteq> CHR ''_'')) (map name ?P)"
    by (simp add: comp_def name_rename)
  have blocks: "list_all2
                (\<lambda>c ind.
                   length ind = card {w. Some w \<in> set (obj_cells c)}
                   \<and> (\<forall>d \<in> set ind. vals d = BoolData (bool_cells d))
                   \<and> ((\<exists>w. Some w \<in> set (obj_cells c))
                        \<longrightarrow> (\<forall>i < n. length (filter (\<lambda>d. bool_cells d ! i) ind) = 1)))
                ?O ?inds"
    unfolding list_all2_map2
  proof (rule list_all2_same[THEN iffD2], intro ballI)
    fix c assume "c \<in> set ?O"
    then have c: "is_object (vals c)" "nrows (vals c) = n"
      using rows by simp_all
    from indicator_block[OF c]
    show "length (?g c) = card {w. Some w \<in> set (obj_cells c)}
          \<and> (\<forall>d \<in> set (?g c). vals d = BoolData (bool_cells d))
          \<and> ((\<exists>w. Some w \<in> set (obj_cells c))
               \<longrightarrow> (\<forall>i < n. length (filter (\<lambda>d. bool_cells d ! i) (?g c)) = 1))"
      by blast
  qed
  have "map length ?inds = map (\<lambda>c. card {w. Some w \<in> set (obj_cells c)}) ?O"
    unfolding map_map comp_def
  proof (rule map_cong[OF refl])
    fix c assume "c \<in> set ?O"
    then have c: "is_object (vals c)" "nrows (vals c) = n"
      using rows by simp_all
    from indicator_block(1)[OF c]
    show "length (?g c) = card {w. Some w \<in> set (obj_cells c)}" .
  qed
  then have count: "length r = length ?P
      + sum_list (map (\<lambda>c. card {w. Some w \<in> set (obj_cells c)}) ?O)"
    unfolding split by (simp only: length_append length_concat length_map)
  have nrows: "\<forall>d \<in> set r. nrows (vals d) = n"
  proof
    fix d assume "d \<in> set r"
    then have "d \<in> set ?nums \<or> d \<in> set (concat ?inds)"
      unfolding split by (simp only: set_append Un_iff)
    then show "nrows (vals d) = n"
    proof
      assume "d \<in> set ?nums"
      then have "d \<in> (\<lambda>c. rename (?f c)) ` set ?P"
        by (simp only: set_map image_image)
      then obtain c where c: "c \<in> set ?P" and d: "d = rename (?f c)" by blast
      from c have "nrows (vals c) = n" using rows by simp
      then show ?thesis by (simp add: d)
    next
      assume "d \<in> set (concat ?inds)"
      then obtain c where c0: "c \<in> set ?O" and d: "d \<in> set (?g c)"
        by (auto simp only: set_concat set_map)
      from c0 have c: "is_object (vals c)" "nrows (vals c) = n"
        using rows by simp_all
      from indicator_block(2)[OF c] d show ?thesis by blast
    qed
  qed
  from split names blocks count nrows show ?thesis by blast
qed

theorem one_hot_encoding_witness:
  "labels_unambiguous people
   \<and> rectangular people 3
   \<and> snd (preprocess_data exact people)
       = Inr [\<lparr>name = ''age'', vals = FloatData [Fin (-1), Fin 0, Fin 1]\<rparr>,
              \<lparr>name = ''cityLA'', vals = BoolData [False, False, True]\<rparr>,
              \<lparr>name = ''cityNY'', vals = BoolData [True, True, False]\<rparr>]
   \<and> length [\<lparr>name = ''age'', vals = FloatData [Fin (-1), Fin 0, Fin 1]\<rparr>,
              \<lparr>name = ''cityLA'', vals = BoolData [False, False, True]\<rparr>,
              \<lparr>name = ''cityNY'', vals = BoolData [True, True, False]\<rparr>]
       = length (filter (\<lambda>c. \<not> is_object (vals c)) people)
         + sum_list (map (\<lambda>c. card {w. Some w \<in> set (obj_cells c)})
                         (filter (\<lambda>c. is_object (vals c)) people))"
proof -
  have rect: "rectangular people 3"
    by (simp add: people_def rectangular_def)
  from one_hot_encoding[OF people_unambiguous rect people_preprocessed]
  have "length [\<lparr>name = ''age'', vals = FloatData [Fin (-1), Fin 0, Fin 1]\<rparr>,
              \<lparr>name = ''cityLA'', vals = BoolData [False, False, True]\<rparr>,
              \<lparr>name = ''cityNY'', vals = BoolData [True, True, False]\<rparr>]
       = length (filter (\<lambda>c. \<not> is_object (vals c)) people)
         + sum_list (map (\<lambda>c. card {w. Some w \<in> set (obj_cells c)})
                         (filter (\<lambda>c. is_object (vals c)) people))"
    by blast
  with people_unambiguous rect people_preprocessed show ?thesis
    by (intro conjI)
qed

end
